theory Spec2Isabelle
  imports Main "HOL-Library.AList" "HOL-Library.Sublist"
begin

section \<open>Values, errors and dictionaries\<close>

text \<open>
  Values decoded from a frame or an HTTP response body by \<^verbatim>\<open>json.loads\<close> /
  \<^verbatim>\<open>response.json()\<close>. Numbers are integers (floating point is left out), a string
  is the list of its code points, each below 256 (the characters of Latin-1; text with
  other characters is outside the model), an object is an association list in
  insertion order.
  Equality of values is structural; Python additionally identifies \<^verbatim>\<open>True\<close> with
  \<^verbatim>\<open>1\<close> and \<^verbatim>\<open>False\<close> with \<^verbatim>\<open>0\<close>, which is not modelled.
\<close>

datatype json =
    JNull
  | JBool bool
  | JNum int
  | JStr string
  | JList "json list"
  | JObj "(string \<times> json) list"

text \<open>The exceptions (all subclasses of \<^verbatim>\<open>Exception\<close>) that the modelled code can raise.\<close>

datatype error =
    KeyError
  | TypeError
  | AttributeError
  | ValueError
  | NotImplementedError
  | JSONDecodeError
  | TimeoutError
  | ConnectionClosed
  | RuleFailure string

type_synonym dict = "(string \<times> json) list"

text \<open>Python truth value of a decoded value (\<^verbatim>\<open>if x:\<close>, \<^verbatim>\<open>while x:\<close>, \<^verbatim>\<open>not x\<close>).\<close>

fun truthy :: "json \<Rightarrow> bool" where
  "truthy JNull = False"
| "truthy (JBool b) = b"
| "truthy (JNum n) = (n \<noteq> 0)"
| "truthy (JStr s) = (s \<noteq> [])"
| "truthy (JList xs) = (xs \<noteq> [])"
| "truthy (JObj kvs) = (kvs \<noteq> [])"

text \<open>\<^verbatim>\<open>d[k]\<close> on a plain dict: a missing key raises KeyError.\<close>

definition dict_getitem :: "dict \<Rightarrow> string \<Rightarrow> error + json" where
  "dict_getitem d k = (case map_of d k of None \<Rightarrow> Inl KeyError | Some v \<Rightarrow> Inr v)"

text \<open>\<^verbatim>\<open>d.get(k, default)\<close>: never raises and never inserts.\<close>

definition dict_get :: "dict \<Rightarrow> string \<Rightarrow> json \<Rightarrow> json" where
  "dict_get d k dflt = (case map_of d k of None \<Rightarrow> dflt | Some v \<Rightarrow> v)"

text \<open>\<^verbatim>\<open>d[k] = v\<close>: replaces the binding in place or appends a new one.\<close>

definition dict_setitem :: "dict \<Rightarrow> string \<Rightarrow> json \<Rightarrow> dict" where
  "dict_setitem d k v = AList.update k v d"

text \<open>
  \<^verbatim>\<open>x[k]\<close> on an arbitrary decoded value with a string key: only an object can be
  subscripted by a string.
\<close>

definition subscript :: "json \<Rightarrow> string \<Rightarrow> error + json" where
  "subscript x k = (case x of JObj d \<Rightarrow> dict_getitem d k | _ \<Rightarrow> Inl TypeError)"

text \<open>\<^verbatim>\<open>x.get(k, default)\<close> on an arbitrary decoded value: only an object has \<^verbatim>\<open>get\<close>.\<close>

definition get_method :: "json \<Rightarrow> string \<Rightarrow> json \<Rightarrow> error + json" where
  "get_method x k dflt = (case x of JObj d \<Rightarrow> Inr (dict_get d k dflt) | _ \<Rightarrow> Inl AttributeError)"

text \<open>
  Iterating over a decoded value (\<^verbatim>\<open>for x in v\<close>, \<^verbatim>\<open>list.extend(v)\<close>): a list yields
  its elements, a string its characters, an object its keys; anything else is not
  iterable.
\<close>

definition py_iter :: "json \<Rightarrow> error + json list" where
  "py_iter v =
     (case v of
        JList xs \<Rightarrow> Inr xs
      | JStr s \<Rightarrow> Inr (map (\<lambda>c. JStr [c]) s)
      | JObj d \<Rightarrow> Inr (map (\<lambda>kv. JStr (fst kv)) d)
      | _ \<Rightarrow> Inl TypeError)"

text \<open>Arrays and objects are unhashable: using one as a dict key raises TypeError.\<close>

fun hashable :: "json \<Rightarrow> bool" where
  "hashable (JList xs) = False"
| "hashable (JObj d) = False"
| "hashable v = True"

text \<open>\<^verbatim>\<open>table.get(key)\<close> on one of the directory tables.\<close>

definition table_get :: "(json \<times> json) list \<Rightarrow> json \<Rightarrow> error + json" where
  "table_get tbl key =
     (if hashable key then Inr (case map_of tbl key of None \<Rightarrow> JNull | Some v \<Rightarrow> v)
      else Inl TypeError)"

section \<open>Events\<close>

text \<open>
  \<^verbatim>\<open>event = defaultdict(lambda: None, event_dict)\<close>. Subscripting a defaultdict is
  the plain subscript, except that a missing key calls the default factory, stores the
  value it returns under the key, and returns it. The event is one object shared by
  every rule of a batch, so each subscript returns the event as it is afterwards.
\<close>

definition event_getitem :: "dict \<Rightarrow> string \<Rightarrow> json \<times> dict" where
  "event_getitem event k =
     (case dict_getitem event k of
        Inr v \<Rightarrow> (v, event)
      | Inl e \<Rightarrow> (JNull, dict_setitem event k JNull))"

section \<open>The bot\<close>

record slack_bot =
  token :: string
  report_to_user :: "string option"
  me :: json
  id_to_user :: "(json \<times> json) list"
  user_to_id :: "(json \<times> json) list"
  id_to_channel :: "(json \<times> json) list"
  channel_to_id :: "(json \<times> json) list"

text \<open>\<^verbatim>\<open>SlackBot.__init__\<close>: no identity yet, empty tables.\<close>

definition SlackBot :: "string \<Rightarrow> string option \<Rightarrow> slack_bot" where
  "SlackBot tok report_to =
     \<lparr> token = tok, report_to_user = report_to, me = JStr '''',
       id_to_user = [], user_to_id = [], id_to_channel = [], channel_to_id = [] \<rparr>"

section \<open>Rules\<close>

text \<open>
  A rule class supplies the methods that the base class leaves to it. The field
  \<open>channel_override\<close> is \<open>None\<close> for a class that inherits
  \<^verbatim>\<open>SlackRule.should_respond_to_channel\<close>. The methods that receive the event
  return it as they leave it.
\<close>

record slack_rule =
  get_applicable_channels :: "error + string list"
  channel_override :: "(slack_bot \<Rightarrow> json \<Rightarrow> error + bool) option"
  should_respond_to_message :: "dict \<Rightarrow> (error + bool) \<times> dict"
  get_response_text :: "dict \<Rightarrow> (error + json) \<times> dict"

text \<open>The base class: every method to be supplied raises NotImplementedError.\<close>

definition SlackRule :: slack_rule where
  "SlackRule =
     \<lparr> get_applicable_channels = Inl NotImplementedError,
       channel_override = None,
       should_respond_to_message = (\<lambda>message. (Inl NotImplementedError, message)),
       get_response_text = (\<lambda>event. (Inl NotImplementedError, event)) \<rparr>"

definition SlackRule_should_respond_to_channel ::
  "slack_rule \<Rightarrow> slack_bot \<Rightarrow> json \<Rightarrow> error + bool" where
  "SlackRule_should_respond_to_channel self bt channel_id =
     (case table_get (id_to_channel bt) channel_id of
        Inl e \<Rightarrow> Inl e
      | Inr channel_name \<Rightarrow>
          if channel_name = JNull then Inr False
          else (case get_applicable_channels self of
                  Inl e \<Rightarrow> Inl e
                | Inr names \<Rightarrow> Inr (channel_name \<in> set (map JStr names))))"

definition should_respond_to_channel :: "slack_rule \<Rightarrow> slack_bot \<Rightarrow> json \<Rightarrow> error + bool" where
  "should_respond_to_channel self bt channel_id =
     (case channel_override self of
        None \<Rightarrow> SlackRule_should_respond_to_channel self bt channel_id
      | Some f \<Rightarrow> f bt channel_id)"

definition should_respond_to_event ::
  "slack_rule \<Rightarrow> slack_bot \<Rightarrow> dict \<Rightarrow> (error + bool) \<times> dict" where
  "should_respond_to_event self bt event0 =
     (let (ty, event1) = event_getitem event0 ''type'' in
      if ty \<noteq> JStr ''message'' then (Inr False, event1)
      else
        let (channel, event2) = event_getitem event1 ''channel'' in
        case should_respond_to_channel self bt channel of
          Inl e \<Rightarrow> (Inl e, event2)
        | Inr False \<Rightarrow> (Inr False, event2)
        | Inr True \<Rightarrow>
            let (text, event3) = event_getitem event2 ''text'';
                event4 = (if text = JNull then dict_setitem event3 ''text'' (JStr '''') else event3)
            in should_respond_to_message self event4)"

text \<open>
  \<^verbatim>\<open>respond\<close>: a single string is wrapped into a list; every response becomes a
  \<^verbatim>\<open>chat.postMessage\<close> action on the event's channel.
\<close>

definition response_list :: "json \<Rightarrow> error + json list" where
  "response_list responses = (case responses of JStr s \<Rightarrow> Inr [JStr s] | _ \<Rightarrow> py_iter responses)"

definition respond :: "slack_rule \<Rightarrow> dict \<Rightarrow> (error + dict list) \<times> dict" where
  "respond self event0 =
     (case get_response_text self event0 of
        (Inl e, event1) \<Rightarrow> (Inl e, event1)
      | (Inr responses, event1) \<Rightarrow>
          let (channel, event2) = event_getitem event1 ''channel'';
              message = [(''method'', JStr ''chat.postMessage''), (''channel'', channel),
                         (''as_user'', JBool True)];
              (thread_ts, event3) = event_getitem event2 ''thread_ts'';
              message = (if thread_ts \<noteq> JNull then dict_setitem message ''thread_ts'' thread_ts
                         else message)
          in (case response_list responses of
                Inl e \<Rightarrow> (Inl e, event3)
              | Inr rs \<Rightarrow>
                  (Inr (map (\<lambda>response. dict_setitem message ''text'' response) rs), event3)))"

definition react :: "slack_rule \<Rightarrow> slack_bot \<Rightarrow> dict \<Rightarrow> (error + dict list) \<times> dict" where
  "react self bt event0 =
     (case should_respond_to_event self bt event0 of
        (Inl e, event1) \<Rightarrow> (Inl e, event1)
      | (Inr True, event1) \<Rightarrow> respond self event1
      | (Inr False, event1) \<Rightarrow> (Inr [], event1))"

subsection \<open>MessageContainsRule\<close>

text \<open>
  \<^verbatim>\<open>str.lower()\<close> on a string of code points below 256. There Python folds letter
  by letter: the upper-case letters are the code points 65 to 90 (A to Z) and 192 to
  222 without the multiplication sign 215, and the lower-case counterpart of each lies
  32 above it; every other code point (the sharp s 223 and the y with diaeresis 255
  among them) is left as it is.
\<close>

definition upper_code :: "nat \<Rightarrow> bool" where
  "upper_code n = (65 \<le> n \<and> n \<le> 90 \<or> 192 \<le> n \<and> n \<le> 222 \<and> n \<noteq> 215)"

definition lower_char :: "char \<Rightarrow> char" where
  "lower_char c = (let n = (of_char c :: nat) in if upper_code n then char_of (n + 32) else c)"

definition lower :: "string \<Rightarrow> string" where
  "lower s = map lower_char s"

text \<open>\<^verbatim>\<open>x.lower()\<close> on a decoded value: only a string has the method.\<close>

definition lower_method :: "json \<Rightarrow> error + string" where
  "lower_method x = (case x of JStr s \<Rightarrow> Inr (lower s) | _ \<Rightarrow> Inl AttributeError)"

text \<open>\<^verbatim>\<open>q in t\<close> on strings: \<open>q\<close> occurs in \<open>t\<close> as a contiguous substring.\<close>

fun str_in :: "string \<Rightarrow> string \<Rightarrow> bool" where
  "str_in q [] = (q = [])"
| "str_in q (c # cs) = (prefix q (c # cs) \<or> str_in q cs)"

text \<open>
  \<^verbatim>\<open>any(q in message["text"].lower() for q in queries)\<close>: the text is looked up
  and lower-cased once for each query, until the first query that occurs in it.
\<close>

fun any_query_in_text :: "string list \<Rightarrow> dict \<Rightarrow> (error + bool) \<times> dict" where
  "any_query_in_text [] message = (Inr False, message)"
| "any_query_in_text (q # qs) message =
     (let (text, message1) = event_getitem message ''text'' in
      case lower_method text of
        Inl e \<Rightarrow> (Inl e, message1)
      | Inr t \<Rightarrow> if str_in q t then (Inr True, message1) else any_query_in_text qs message1)"

text \<open>
  \<^verbatim>\<open>MessageContainsRule.should_respond_to_message\<close>, given what the rule's
  \<^verbatim>\<open>get_query_strings\<close> returns.
\<close>

definition MessageContainsRule_should_respond_to_message ::
  "(error + string list) \<Rightarrow> dict \<Rightarrow> (error + bool) \<times> dict" where
  "MessageContainsRule_should_respond_to_message get_query_strings message =
     (case get_query_strings of
        Inl e \<Rightarrow> (Inl e, message)
      | Inr queries \<Rightarrow> any_query_in_text queries message)"

text \<open>
  A change of letter case, stated without \<open>lower\<close>: two characters are the same letter
  when they are equal or one is an upper-case letter and the other its counterpart 32
  above; two strings differ in letter case only when they do so character by character.
  And the reading of "occurs as a case-insensitive substring" that the specification of
  ContainsRule uses: some substring of the text differs from the query in letter case
  only.
\<close>

definition same_letter :: "char \<Rightarrow> char \<Rightarrow> bool" where
  "same_letter c d =
     (c = d
      \<or> upper_code (of_char c) \<and> (of_char d :: nat) = of_char c + 32
      \<or> upper_code (of_char d) \<and> (of_char c :: nat) = of_char d + 32)"

definition case_variant :: "string \<Rightarrow> string \<Rightarrow> bool" where
  "case_variant s t = list_all2 same_letter s t"

definition case_insensitive_substring :: "string \<Rightarrow> string \<Rightarrow> bool" where
  "case_insensitive_substring q t = (\<exists>s\<in>set (sublists t). case_variant q s)"

subsection \<open>SnippetOrMessageContainsRule\<close>

text \<open>
  \<^verbatim>\<open>SnippetOrMessageContainsRule.should_respond_to_message\<close>, given what the rule's
  \<^verbatim>\<open>get_query_strings\<close> returns and what the authenticated download of a URL
  yields. The value of \<^verbatim>\<open>message["file"]\<close> is whatever the frame held there, or
  \<^verbatim>\<open>None\<close>: subscripting it is the plain subscript.
\<close>

definition SnippetOrMessageContainsRule_should_respond_to_message ::
  "(error + string list) \<Rightarrow> (json \<Rightarrow> error + string) \<Rightarrow> dict \<Rightarrow> (error + bool) \<times> dict" where
  "SnippetOrMessageContainsRule_should_respond_to_message get_query_strings download message0 =
     (case MessageContainsRule_should_respond_to_message get_query_strings message0 of
        (Inl e, message1) \<Rightarrow> (Inl e, message1)
      | (Inr True, message1) \<Rightarrow> (Inr True, message1)
      | (Inr False, message1) \<Rightarrow>
          let (subtype, message2) = event_getitem message1 ''subtype'' in
          if subtype \<noteq> JStr ''file_share'' then (Inr False, message2)
          else
            let (file, message3) = event_getitem message2 ''file'' in
            (case subscript file ''mode'' of
               Inl e \<Rightarrow> (Inl e, message3)
             | Inr mode \<Rightarrow>
                 if mode \<noteq> JStr ''snippet'' then (Inr False, message3)
                 else
                   let (file1, message4) = event_getitem message3 ''file'' in
                   (case subscript file1 ''url_private'' of
                      Inl e \<Rightarrow> (Inl e, message4)
                    | Inr url \<Rightarrow>
                        (case download url of
                           Inl e \<Rightarrow> (Inl e, message4)
                         | Inr file_contents \<Rightarrow>
                             (case get_query_strings of
                                Inl e \<Rightarrow> (Inl e, message4)
                              | Inr queries \<Rightarrow>
                                  (Inr (\<exists>q\<in>set queries. str_in q (lower file_contents)),
                                   message4))))))"

subsection \<open>A rule of the examples\<close>

text \<open>\<^verbatim>\<open>AreYouListening\<close> of \<^verbatim>\<open>examples.py\<close>, a \<^verbatim>\<open>MessageContainsRule\<close>.\<close>

definition AreYouListening :: slack_rule where
  "AreYouListening =
     \<lparr> get_applicable_channels = Inr [''random''],
       channel_override = None,
       should_respond_to_message =
         MessageContainsRule_should_respond_to_message
           (Inr [''are you there'', ''are you listening'']),
       get_response_text =
         (\<lambda>event. (Inr (JStr ''Yes. You can't see me, but I'm right behind you.''), event)) \<rparr>"

section \<open>The gateway API client\<close>

text \<open>
  The texts that the bot logs and reports are kept as structured values rather than
  formatted strings: each constructor stands for one f-string of the source and carries
  the values interpolated into it.
\<close>

datatype level = INFO | ERROR

datatype message =
    Timeout_message "dict option"
  | Error_message error "dict option"
  | Direct_message dict
  | Responding_message nat

datatype pyval = Json json | Text message

type_synonym kwargs = "(string \<times> pyval) list"

text \<open>One HTTP POST: the method that addresses the endpoint, and the form data.\<close>

type_synonym request = "pyval \<times> kwargs"

text \<open>
  The remote service answers every request with a decoded body. Transport failures of
  the HTTP session are not modelled.
\<close>

type_synonym server = "request \<Rightarrow> json"

text \<open>
  What the bot does to the outside and to its tasks: the log, the requests posted, the
  positions of the rules whose reaction was started, and the positions, in their batch,
  of the tasks on which \<^verbatim>\<open>cancel()\<close> was called.
\<close>

record world =
  logged :: "(level \<times> message) list"
  posted :: "request list"
  invoked :: "nat list"
  cancelled :: "nat list"

definition api_call :: "server \<Rightarrow> slack_bot \<Rightarrow> kwargs \<Rightarrow> world \<Rightarrow> (error + json) \<times> world" where
  "api_call srv bt data w =
     (case map_of data ''method'' of
        None \<Rightarrow> (Inl KeyError, w)
      | Some method \<Rightarrow>
          let data1 = AList.update ''token'' (Json (JStr (token bt))) (AList.delete ''method'' data);
              req = (method, data1)
          in (Inr (srv req), w\<lparr>posted := posted w @ [req]\<rparr>))"

text \<open>
  \<^verbatim>\<open>response.get("response_metadata", {}).get("next_cursor")\<close>.
\<close>

definition next_cursor_of :: "json \<Rightarrow> error + json" where
  "next_cursor_of response =
     (case get_method response ''response_metadata'' (JObj []) of
        Inl e \<Rightarrow> Inl e
      | Inr meta \<Rightarrow> get_method meta ''next_cursor'' JNull)"

text \<open>
  One turn of the loop of \<^verbatim>\<open>paginated_api_call\<close>: the call with the cursor (a
  \<^verbatim>\<open>cursor\<close> already among the keyword arguments is a duplicate keyword),
  \<^verbatim>\<open>ret.extend(response[collect_key])\<close>, and the next cursor.
\<close>

definition next_page ::
  "server \<Rightarrow> slack_bot \<Rightarrow> string \<Rightarrow> kwargs \<Rightarrow> json \<Rightarrow> json \<Rightarrow> world
     \<Rightarrow> (error + json \<times> json) \<times> world" where
  "next_page srv bt collect_key data ret next_cursor w =
     (if map_of data ''cursor'' \<noteq> None then (Inl TypeError, w)
      else
        case api_call srv bt ((''cursor'', Json next_cursor) # data) w of
          (Inl e, w1) \<Rightarrow> (Inl e, w1)
        | (Inr response, w1) \<Rightarrow>
            (case ret of
               JList xs \<Rightarrow>
                 (case subscript response collect_key of
                    Inl e \<Rightarrow> (Inl e, w1)
                  | Inr page \<Rightarrow>
                      (case py_iter page of
                         Inl e \<Rightarrow> (Inl e, w1)
                       | Inr ys \<Rightarrow>
                           (case next_cursor_of response of
                              Inl e \<Rightarrow> (Inl e, w1)
                            | Inr c \<Rightarrow> (Inr (JList (xs @ ys), c), w1))))
             | _ \<Rightarrow> (Inl AttributeError, w1)))"

text \<open>
  \<^verbatim>\<open>while next_cursor: ...\<close>. The loop runs for as long as the service keeps
  returning a cursor that counts as true, possibly forever: \<open>None\<close> is the run that
  does not return.
\<close>

partial_function (option) paginate_from ::
  "server \<Rightarrow> slack_bot \<Rightarrow> string \<Rightarrow> kwargs \<Rightarrow> json \<Rightarrow> json \<Rightarrow> world
     \<Rightarrow> ((error + json) \<times> world) option" where
  "paginate_from srv bt collect_key data ret next_cursor w =
     (if truthy next_cursor then
        (case next_page srv bt collect_key data ret next_cursor w of
           (Inl e, w1) \<Rightarrow> Some (Inl e, w1)
         | (Inr (ret1, next_cursor1), w1) \<Rightarrow>
             paginate_from srv bt collect_key data ret1 next_cursor1 w1)
      else Some (Inr ret, w))"

declare paginate_from.simps [code]

definition paginated_api_call ::
  "server \<Rightarrow> slack_bot \<Rightarrow> string \<Rightarrow> kwargs \<Rightarrow> world \<Rightarrow> ((error + json) \<times> world) option" where
  "paginated_api_call srv bt collect_key data0 w =
     (let data = AList.update ''limit'' (Json (JNum 300)) data0 in
      case api_call srv bt data w of
        (Inl e, w1) \<Rightarrow> Some (Inl e, w1)
      | (Inr response, w1) \<Rightarrow>
          (case subscript response collect_key of
             Inl e \<Rightarrow> Some (Inl e, w1)
           | Inr ret \<Rightarrow>
               (case next_cursor_of response of
                  Inl e \<Rightarrow> Some (Inl e, w1)
                | Inr next_cursor \<Rightarrow> paginate_from srv bt collect_key data ret next_cursor w1)))"

section \<open>Reporting and the dispatcher\<close>

definition get_readable_event :: "slack_bot \<Rightarrow> dict \<Rightarrow> error + dict" where
  "get_readable_event bt event0 =
     (case table_get (id_to_channel bt) (dict_get event0 ''channel'' (JStr '''')) of
        Inl e \<Rightarrow> Inl e
      | Inr channel_name \<Rightarrow>
          let event1 = dict_setitem event0 ''channel_name'' channel_name in
          (case table_get (id_to_user bt) (dict_get event1 ''user'' (JStr '''')) of
             Inl e \<Rightarrow> Inl e
           | Inr user_name \<Rightarrow> Inr (dict_setitem event1 ''user_name'' user_name)))"

text \<open>
  \<^verbatim>\<open>log_and_report\<close>: the message is logged, and posted to the operator when
  \<^verbatim>\<open>report_to_user\<close> is set (neither \<^verbatim>\<open>None\<close> nor empty).
\<close>

definition log_and_report ::
  "server \<Rightarrow> slack_bot \<Rightarrow> message \<Rightarrow> level \<Rightarrow> world \<Rightarrow> (error + unit) \<times> world" where
  "log_and_report srv bt msg lvl w =
     (let w1 = w\<lparr>logged := logged w @ [(lvl, msg)]\<rparr> in
      case report_to_user bt of
        None \<Rightarrow> (Inr (), w1)
      | Some u \<Rightarrow>
          if u = [] then (Inr (), w1)
          else
            (case api_call srv bt
                    [(''method'', Json (JStr ''chat.postMessage'')),
                     (''channel'', Json (JStr u)), (''text'', Text msg)] w1 of
               (Inl e, w2) \<Rightarrow> (Inl e, w2)
             | (Inr response, w2) \<Rightarrow> (Inr (), w2)))"

text \<open>
  What \<^verbatim>\<open>asyncio.wait(futures, timeout=20)\<close> finds of one task when it returns:
  the task is done, having returned or raised, or it is still pending at the deadline.
\<close>

datatype 'a outcome = Returned 'a | Raised error | Pending

text \<open>
  \<^verbatim>\<open>for fut in pending: fut.cancel(); await self.log_and_report(...)\<close>, over the
  tasks from position \<open>i\<close> on: a pending task is cancelled, then the timeout is
  reported.
\<close>

fun report_pending ::
  "server \<Rightarrow> slack_bot \<Rightarrow> nat \<Rightarrow> 'a outcome list \<Rightarrow> dict option \<Rightarrow> world
     \<Rightarrow> (error + unit) \<times> world" where
  "report_pending srv bt i [] event w = (Inr (), w)"
| "report_pending srv bt i (Pending # futs) event w =
     (case log_and_report srv bt (Timeout_message event) ERROR
             (w\<lparr>cancelled := cancelled w @ [i]\<rparr>) of
        (Inl e, w1) \<Rightarrow> (Inl e, w1)
      | (Inr u, w1) \<Rightarrow> report_pending srv bt (Suc i) futs event w1)"
| "report_pending srv bt i (fut # futs) event w = report_pending srv bt (Suc i) futs event w"

text \<open>
  \<^verbatim>\<open>for fut in done: try: await fut; except Exception as e: await self.log_and_report(...)\<close>
\<close>

fun report_done ::
  "server \<Rightarrow> slack_bot \<Rightarrow> 'a outcome list \<Rightarrow> dict option \<Rightarrow> world \<Rightarrow> (error + unit) \<times> world" where
  "report_done srv bt [] event w = (Inr (), w)"
| "report_done srv bt (Raised e # futs) event w =
     (case log_and_report srv bt (Error_message e event) ERROR w of
        (Inl e1, w1) \<Rightarrow> (Inl e1, w1)
      | (Inr u, w1) \<Rightarrow> report_done srv bt futs event w1)"
| "report_done srv bt (fut # futs) event w = report_done srv bt futs event w"

text \<open>
  \<^verbatim>\<open>if event: event = self.get_readable_event(event)\<close>: an event that counts as
  true (neither \<^verbatim>\<open>None\<close> nor empty) is replaced by its readable rendering.
\<close>

definition readable_if_true :: "slack_bot \<Rightarrow> dict option \<Rightarrow> error + dict option" where
  "readable_if_true bt event =
     (case event of
        None \<Rightarrow> Inr None
      | Some ev \<Rightarrow>
          if ev = [] then Inr (Some ev)
          else (case get_readable_event bt ev of
                  Inl e \<Rightarrow> Inl e
                | Inr readable \<Rightarrow> Inr (Some readable)))"

text \<open>
  \<^verbatim>\<open>_handle_futures\<close>, applied to the tasks as \<^verbatim>\<open>asyncio.wait\<close> finds them
  (in the order of the list; the source iterates over two sets). \<^verbatim>\<open>asyncio.wait\<close>
  raises ValueError on an empty collection.
\<close>

definition handle_futures ::
  "server \<Rightarrow> slack_bot \<Rightarrow> 'a outcome list \<Rightarrow> dict option \<Rightarrow> world \<Rightarrow> (error + unit) \<times> world" where
  "handle_futures srv bt futures event w =
     (if futures = [] then (Inl ValueError, w)
      else
        case readable_if_true bt event of
          Inl e \<Rightarrow> (Inl e, w)
        | Inr event1 \<Rightarrow>
            (case report_pending srv bt 0 futures event1 w of
               (Inl e, w1) \<Rightarrow> (Inl e, w1)
             | (Inr u, w1) \<Rightarrow> report_done srv bt futures event1 w1))"

text \<open>
  A rule instance as the runtime sees it: what its \<^verbatim>\<open>load()\<close> task comes to, and
  its \<^verbatim>\<open>react\<close>, which reads the bot it was constructed with, receives the shared
  event, may change it, and returns actions, raises, or is still running at the
  deadline.
\<close>

record rule_instance =
  load :: "unit outcome"
  react_method :: "slack_bot \<Rightarrow> dict \<Rightarrow> dict list outcome \<times> dict"

text \<open>An instance of a rule class that inherits \<^verbatim>\<open>load\<close> and \<^verbatim>\<open>react\<close>.\<close>

definition instance_of :: "slack_rule \<Rightarrow> rule_instance" where
  "instance_of self =
     \<lparr> load = Returned (),
       react_method =
         (\<lambda>bt event. case react self bt event of
                     (Inl e, event1) \<Rightarrow> (Raised e, event1)
                   | (Inr responses, event1) \<Rightarrow> (Returned responses, event1)) \<rparr>"

text \<open>\<^verbatim>\<open>for response in responses: await self.api_call(**response)\<close>\<close>

fun submit_responses ::
  "server \<Rightarrow> slack_bot \<Rightarrow> dict list \<Rightarrow> world \<Rightarrow> (error + unit) \<times> world" where
  "submit_responses srv bt [] w = (Inr (), w)"
| "submit_responses srv bt (response # responses) w =
     (case api_call srv bt (map (\<lambda>kv. (fst kv, Json (snd kv))) response) w of
        (Inl e, w1) \<Rightarrow> (Inl e, w1)
      | (Inr r, w1) \<Rightarrow> submit_responses srv bt responses w1)"

text \<open>
  The task \<^verbatim>\<open>_react_to_rule(rule)\<close> for the rule at position \<open>i\<close>, run until
  \<^verbatim>\<open>asyncio.wait\<close> returns.
\<close>

definition react_to_rule ::
  "server \<Rightarrow> slack_bot \<Rightarrow> nat \<Rightarrow> rule_instance \<Rightarrow> dict \<Rightarrow> world
     \<Rightarrow> unit outcome \<times> dict \<times> world" where
  "react_to_rule srv bt i rule event w =
     (let w0 = w\<lparr>invoked := invoked w @ [i]\<rparr> in
      case react_method rule bt event of
        (Pending, event1) \<Rightarrow> (Pending, event1, w0)
      | (Raised e, event1) \<Rightarrow> (Raised e, event1, w0)
      | (Returned responses, event1) \<Rightarrow>
          let w1 = (if responses \<noteq> []
                    then w0\<lparr>logged := logged w0 @ [(INFO, Responding_message i)]\<rparr> else w0)
          in (case submit_responses srv bt responses w1 of
                (Inl e, w2) \<Rightarrow> (Raised e, event1, w2)
              | (Inr u, w2) \<Rightarrow> (Returned (), event1, w2)))"

text \<open>
  The tasks of one batch, taken one after the other in the order of the rules; the
  event is the one object that every task receives.
\<close>

fun run_tasks ::
  "server \<Rightarrow> slack_bot \<Rightarrow> nat \<Rightarrow> rule_instance list \<Rightarrow> dict \<Rightarrow> world
     \<Rightarrow> unit outcome list \<times> dict \<times> world" where
  "run_tasks srv bt i [] event w = ([], event, w)"
| "run_tasks srv bt i (rule # rules) event w =
     (case react_to_rule srv bt i rule event w of
        (fut, event1, w1) \<Rightarrow>
          (case run_tasks srv bt (Suc i) rules event1 w1 of
             (futs, event2, w2) \<Rightarrow> (fut # futs, event2, w2)))"

text \<open>
  The logging of direct messages in \<^verbatim>\<open>_process_event\<close>:
  \<^verbatim>\<open>event["type"] == "message" and event["channel"] and event["channel"].startswith("D")\<close>.
\<close>

definition log_direct_message :: "slack_bot \<Rightarrow> dict \<Rightarrow> world \<Rightarrow> (error + unit) \<times> dict \<times> world" where
  "log_direct_message bt event0 w =
     (let (ty, event1) = event_getitem event0 ''type'' in
      if ty \<noteq> JStr ''message'' then (Inr (), event1, w)
      else
        let (channel, event2) = event_getitem event1 ''channel'' in
        if \<not> truthy channel then (Inr (), event2, w)
        else
          (case channel of
             JStr s \<Rightarrow>
               if prefix ''D'' s then
                 (case get_readable_event bt event2 of
                    Inl e \<Rightarrow> (Inl e, event2, w)
                  | Inr readable \<Rightarrow>
                      (Inr (), event2, w\<lparr>logged := logged w @ [(INFO, Direct_message readable)]\<rparr>))
               else (Inr (), event2, w)
           | _ \<Rightarrow> (Inl AttributeError, event2, w)))"

text \<open>
  The dispatch of one batch, the last statement of \<^verbatim>\<open>_process_event\<close>:
  \<^verbatim>\<open>await self._handle_futures([_react_to_rule(rule) for rule in self.rules], event=event)\<close>.
\<close>

definition dispatch ::
  "server \<Rightarrow> slack_bot \<Rightarrow> rule_instance list \<Rightarrow> dict \<Rightarrow> world \<Rightarrow> (error + unit) \<times> world" where
  "dispatch srv bt rules event w =
     (case run_tasks srv bt 0 rules event w of
        (futures, event1, w1) \<Rightarrow> handle_futures srv bt futures (Some event1) w1)"

definition process_event ::
  "server \<Rightarrow> slack_bot \<Rightarrow> rule_instance list \<Rightarrow> dict \<Rightarrow> world \<Rightarrow> (error + unit) \<times> world" where
  "process_event srv bt rules event_dict w =
     (let (user, event1) = event_getitem event_dict ''user'' in
      if user = me bt then (Inr (), w)
      else
        (case log_direct_message bt event1 w of
           (Inl e, event2, w1) \<Rightarrow> (Inl e, w1)
         | (Inr u, event2, w1) \<Rightarrow> dispatch srv bt rules event2 w1))"

text \<open>
  Two notions used to state what a batch does. The reactions of a batch: what the
  \<^verbatim>\<open>react\<close> of each rule comes to, each rule receiving the event as the rules before
  it have left it, and the event as the last rule leaves it. The requests of a call:
  what \<^verbatim>\<open>api_call\<close> posts for given keyword arguments.
\<close>

fun reactions :: "slack_bot \<Rightarrow> rule_instance list \<Rightarrow> dict \<Rightarrow> dict list outcome list \<times> dict" where
  "reactions bt [] event = ([], event)"
| "reactions bt (rule # rules) event =
     (case react_method rule bt event of
        (out, event1) \<Rightarrow>
          (case reactions bt rules event1 of (outs, event2) \<Rightarrow> (out # outs, event2)))"

definition requests_of :: "slack_bot \<Rightarrow> kwargs \<Rightarrow> request list" where
  "requests_of bt data =
     (case map_of data ''method'' of
        None \<Rightarrow> []
      | Some method \<Rightarrow>
          [(method, AList.update ''token'' (Json (JStr (token bt))) (AList.delete ''method'' data))])"

definition action_requests :: "slack_bot \<Rightarrow> dict list \<Rightarrow> request list" where
  "action_requests bt responses =
     concat (map (\<lambda>response. requests_of bt (map (\<lambda>kv. (fst kv, Json (snd kv))) response)) responses)"

section \<open>The connection manager\<close>

text \<open>
  \<^verbatim>\<open>{u[kf]: u[vf] for u in users}\<close>: a later entry with the same key replaces the
  value of the earlier one; an unhashable key raises TypeError.
\<close>

fun fill_table ::
  "string \<Rightarrow> string \<Rightarrow> json list \<Rightarrow> (json \<times> json) list \<Rightarrow> error + (json \<times> json) list" where
  "fill_table kf vf [] tbl = Inr tbl"
| "fill_table kf vf (u # us) tbl =
     (case subscript u kf of
        Inl e \<Rightarrow> Inl e
      | Inr k \<Rightarrow>
          (case subscript u vf of
             Inl e \<Rightarrow> Inl e
           | Inr v \<Rightarrow>
               if hashable k then fill_table kf vf us (AList.update k v tbl)
               else Inl TypeError))"

text \<open>The two tables built from one paginated collection.\<close>

definition load_tables ::
  "server \<Rightarrow> slack_bot \<Rightarrow> string \<Rightarrow> kwargs \<Rightarrow> world
     \<Rightarrow> ((error + (json \<times> json) list \<times> (json \<times> json) list) \<times> world) option" where
  "load_tables srv bt collect_key data w =
     (case paginated_api_call srv bt collect_key data w of
        None \<Rightarrow> None
      | Some (Inl e, w1) \<Rightarrow> Some (Inl e, w1)
      | Some (Inr entries, w1) \<Rightarrow>
          (case py_iter entries of
             Inl e \<Rightarrow> Some (Inl e, w1)
           | Inr us \<Rightarrow>
               (case fill_table ''id'' ''name'' us [] of
                  Inl e \<Rightarrow> Some (Inl e, w1)
                | Inr id_to_name \<Rightarrow>
                    (case fill_table ''name'' ''id'' us [] of
                       Inl e \<Rightarrow> Some (Inl e, w1)
                     | Inr name_to_id \<Rightarrow> Some (Inr (id_to_name, name_to_id), w1)))))"

definition load_user_map ::
  "server \<Rightarrow> slack_bot \<Rightarrow> world \<Rightarrow> ((error + slack_bot) \<times> world) option" where
  "load_user_map srv bt w =
     (case load_tables srv bt ''members'' [(''method'', Json (JStr ''users.list''))] w of
        None \<Rightarrow> None
      | Some (Inl e, w1) \<Rightarrow> Some (Inl e, w1)
      | Some (Inr (id_to_name, name_to_id), w1) \<Rightarrow>
          Some (Inr (bt\<lparr>id_to_user := id_to_name, user_to_id := name_to_id\<rparr>), w1))"

definition load_channel_map ::
  "server \<Rightarrow> slack_bot \<Rightarrow> world \<Rightarrow> ((error + slack_bot) \<times> world) option" where
  "load_channel_map srv bt w =
     (case load_tables srv bt ''channels''
             [(''method'', Json (JStr ''conversations.list'')),
              (''types'', Json (JStr ''public_channel,private_channel''))] w of
        None \<Rightarrow> None
      | Some (Inl e, w1) \<Rightarrow> Some (Inl e, w1)
      | Some (Inr (id_to_name, name_to_id), w1) \<Rightarrow>
          Some (Inr (bt\<lparr>id_to_channel := id_to_name, channel_to_id := name_to_id\<rparr>), w1))"

text \<open>
  What the socket does, as the receive loop meets it: \<^verbatim>\<open>ws.recv()\<close> delivers a
  frame within 20 seconds (one that decodes to an object, or one that
  \<^verbatim>\<open>json.loads\<close> rejects), raises ConnectionClosed, or times out; after a
  timeout, \<^verbatim>\<open>ws.ping()\<close> completes within 10 seconds, raises ConnectionClosed, or
  times out in its turn.
\<close>

datatype ping = Pong | Ping_timeout | Ping_closed

datatype recv = Frame dict | Undecodable | Idle ping | Closed

text \<open>
  The inner \<^verbatim>\<open>while True\<close> of \<^verbatim>\<open>run\<close>, over the finite part of the socket's
  behaviour that is given: it ends with the exception that leaves the loop, or with
  \<open>None\<close> when what is given has been consumed and the loop is still receiving. The
  dispatch of a frame is started with \<^verbatim>\<open>asyncio.ensure_future\<close> and nothing it raises
  reaches the loop; it is taken to completion before the next frame is read.
\<close>

fun receive_loop ::
  "server \<Rightarrow> slack_bot \<Rightarrow> rule_instance list \<Rightarrow> recv list \<Rightarrow> world \<Rightarrow> error option \<times> world" where
  "receive_loop srv bt rules [] w = (None, w)"
| "receive_loop srv bt rules (Frame event # rest) w =
     receive_loop srv bt rules rest (snd (process_event srv bt rules event w))"
| "receive_loop srv bt rules (Undecodable # rest) w = (Some JSONDecodeError, w)"
| "receive_loop srv bt rules (Idle Pong # rest) w = receive_loop srv bt rules rest w"
| "receive_loop srv bt rules (Idle Ping_timeout # rest) w = (Some TimeoutError, w)"
| "receive_loop srv bt rules (Idle Ping_closed # rest) w = (Some ConnectionClosed, w)"
| "receive_loop srv bt rules (Closed # rest) w = (Some ConnectionClosed, w)"

text \<open>One connection cycle: the gateway as it answers during the cycle, and the socket.\<close>

record cycle =
  gateway :: server
  socket :: "recv list"

datatype session_end = Handshake_refused | Exception error | Still_receiving

text \<open>
  The body of the outer \<^verbatim>\<open>try\<close> of \<^verbatim>\<open>run\<close>: handshake, directory reload, rule
  load, receive loop. Opening the socket is taken to succeed.
\<close>

definition session ::
  "cycle \<Rightarrow> slack_bot \<Rightarrow> rule_instance list \<Rightarrow> world \<Rightarrow> (session_end \<times> slack_bot \<times> world) option" where
  "session c bt rules w =
     (case api_call (gateway c) bt [(''method'', Json (JStr ''rtm.connect''))] w of
        (Inl e, w1) \<Rightarrow> Some (Exception e, bt, w1)
      | (Inr response, w1) \<Rightarrow>
     (case subscript response ''ok'' of
        Inl e \<Rightarrow> Some (Exception e, bt, w1)
      | Inr ok \<Rightarrow>
     if \<not> truthy ok then Some (Handshake_refused, bt, w1)
     else
     (case subscript response ''url'' of
        Inl e \<Rightarrow> Some (Exception e, bt, w1)
      | Inr url \<Rightarrow>
     (case subscript response ''self'' of
        Inl e \<Rightarrow> Some (Exception e, bt, w1)
      | Inr slf \<Rightarrow>
     (case subscript slf ''id'' of
        Inl e \<Rightarrow> Some (Exception e, bt, w1)
      | Inr my_id \<Rightarrow>
     (case load_user_map (gateway c) (bt\<lparr>me := my_id\<rparr>) w1 of
        None \<Rightarrow> None
      | Some (Inl e, w2) \<Rightarrow> Some (Exception e, bt\<lparr>me := my_id\<rparr>, w2)
      | Some (Inr bt2, w2) \<Rightarrow>
     (case load_channel_map (gateway c) bt2 w2 of
        None \<Rightarrow> None
      | Some (Inl e, w3) \<Rightarrow> Some (Exception e, bt2, w3)
      | Some (Inr bt3, w3) \<Rightarrow>
     (case handle_futures (gateway c) bt3 (map load rules) None w3 of
        (Inl e, w4) \<Rightarrow> Some (Exception e, bt3, w4)
      | (Inr u, w4) \<Rightarrow>
     (case receive_loop (gateway c) bt3 rules (socket c) w4 of
        (Some e, w5) \<Rightarrow> Some (Exception e, bt3, w5)
      | (None, w5) \<Rightarrow> Some (Still_receiving, bt3, w5))))))))))"

text \<open>
  \<^verbatim>\<open>run\<close>: the outer \<^verbatim>\<open>while True\<close> with its
  \<^verbatim>\<open>except websockets.ConnectionClosed: pass\<close>, over the connection cycles that are
  given. It returns when the handshake is refused, raises what the \<^verbatim>\<open>except\<close> clause
  does not catch, and is otherwise still running when the cycles given are used up.
\<close>

datatype run_result = Returns | Raises error | Running

fun run ::
  "cycle list \<Rightarrow> slack_bot \<Rightarrow> rule_instance list \<Rightarrow> world \<Rightarrow> (run_result \<times> slack_bot \<times> world) option" where
  "run [] bt rules w = Some (Running, bt, w)"
| "run (c # cs) bt rules w =
     (case session c bt rules w of
        None \<Rightarrow> None
      | Some (Handshake_refused, bt1, w1) \<Rightarrow> Some (Returns, bt1, w1)
      | Some (Exception e, bt1, w1) \<Rightarrow>
          if e = ConnectionClosed then run cs bt1 rules w1 else Some (Raises e, bt1, w1)
      | Some (Still_receiving, bt1, w1) \<Rightarrow> Some (Running, bt1, w1))"

text \<open>
  More notions used to state what a batch does: the request by which
  \<^verbatim>\<open>log_and_report\<close> forwards a message to the operator, if there is one; the
  positions of the pending tasks among the tasks from position \<open>i\<close> on; the entries
  of the log at level ERROR; and what a task comes to, given what the reaction of its
  rule comes to (an action without a \<^verbatim>\<open>method\<close> makes \<^verbatim>\<open>api_call\<close> raise
  KeyError).
\<close>

definition report_requests :: "slack_bot \<Rightarrow> message \<Rightarrow> request list" where
  "report_requests bt msg =
     (case report_to_user bt of
        None \<Rightarrow> []
      | Some u \<Rightarrow>
          if u = [] then []
          else requests_of bt [(''method'', Json (JStr ''chat.postMessage'')),
                               (''channel'', Json (JStr u)), (''text'', Text msg)])"

fun pending_positions :: "nat \<Rightarrow> 'a outcome list \<Rightarrow> nat list" where
  "pending_positions i [] = []"
| "pending_positions i (Pending # futs) = i # pending_positions (Suc i) futs"
| "pending_positions i (fut # futs) = pending_positions (Suc i) futs"

definition errors_logged :: "world \<Rightarrow> (level \<times> message) list" where
  "errors_logged w = filter (\<lambda>l. fst l = ERROR) (logged w)"

definition task_outcome :: "dict list outcome \<Rightarrow> unit outcome" where
  "task_outcome out =
     (case out of
        Returned acts \<Rightarrow>
          if \<forall>act\<in>set acts. map_of act ''method'' \<noteq> None then Returned () else Raised KeyError
      | Raised e \<Rightarrow> Raised e
      | Pending \<Rightarrow> Pending)"

text \<open>
  Notions used to state what a paginated call does: the request for one page (the first
  one without a cursor); the requests for a sequence of pages, each page given by its
  items and the cursor that comes with it; and that the service delivers this sequence
  of pages, the cursor of every page but the last counting as true. And the number of
  handshakes among the requests posted.
\<close>

definition page_request :: "slack_bot \<Rightarrow> pyval \<Rightarrow> kwargs \<Rightarrow> json option \<Rightarrow> request" where
  "page_request bt method data cursor =
     (method,
      AList.update ''token'' (Json (JStr (token bt)))
        (AList.delete ''method''
           (case cursor of None \<Rightarrow> data | Some c \<Rightarrow> (''cursor'', Json c) # data)))"

fun page_requests ::
  "slack_bot \<Rightarrow> pyval \<Rightarrow> kwargs \<Rightarrow> json option \<Rightarrow> (json list \<times> json) list \<Rightarrow> request list" where
  "page_requests bt method data cursor [] = []"
| "page_requests bt method data cursor ((items, next_cursor) # pages) =
     page_request bt method data cursor # page_requests bt method data (Some next_cursor) pages"

fun pages_served ::
  "server \<Rightarrow> slack_bot \<Rightarrow> string \<Rightarrow> pyval \<Rightarrow> kwargs \<Rightarrow> json option \<Rightarrow> (json list \<times> json) list
     \<Rightarrow> bool" where
  "pages_served srv bt collect_key method data cursor [] =
     (case cursor of None \<Rightarrow> False | Some c \<Rightarrow> \<not> truthy c)"
| "pages_served srv bt collect_key method data cursor ((items, next_cursor) # pages) =
     ((case cursor of None \<Rightarrow> True | Some c \<Rightarrow> truthy c)
      \<and> subscript (srv (page_request bt method data cursor)) collect_key = Inr (JList items)
      \<and> next_cursor_of (srv (page_request bt method data cursor)) = Inr next_cursor
      \<and> pages_served srv bt collect_key method data (Some next_cursor) pages)"

definition handshakes :: "world \<Rightarrow> nat" where
  "handshakes w = length (filter (\<lambda>req. fst req = Json (JStr ''rtm.connect'')) (posted w))"

section \<open>Concrete inputs\<close>

text \<open>A service that acknowledges every request, and the world before anything happened.\<close>

definition acknowledging :: server where
  "acknowledging req = JObj [(''ok'', JBool True)]"

definition untouched :: world where
  "untouched = \<lparr> logged = [], posted = [], invoked = [], cancelled = [] \<rparr>"

text \<open>A rule whose \<^verbatim>\<open>load\<close> and \<^verbatim>\<open>react\<close> never complete.\<close>

definition Stalled :: rule_instance where
  "Stalled = \<lparr> load = Pending, react_method = (\<lambda>bt event. (Pending, event)) \<rparr>"

text \<open>
  Two rules that override \<^verbatim>\<open>react\<close>: one that raises on every event, and one that
  greets a user who joins the team.
\<close>

definition Crasher :: rule_instance where
  "Crasher =
     \<lparr> load = Returned (),
       react_method = (\<lambda>bt event. (Raised (RuleFailure ''crash''), event)) \<rparr>"

definition Welcomer :: rule_instance where
  "Welcomer =
     \<lparr> load = Returned (),
       react_method =
         (\<lambda>bt event.
            if dict_get event ''type'' JNull = JStr ''team_join'' then
              (Returned [[(''method'', JStr ''chat.postMessage''), (''channel'', JStr ''C1''),
                          (''text'', JStr ''Welcome!'')]], event)
            else (Returned [], event)) \<rparr>"

text \<open>
  The event that the gateway sends when a user joins the team: its \<^verbatim>\<open>user\<close> field
  is an object.
\<close>

definition team_join :: dict where
  "team_join =
     [(''type'', JStr ''team_join''),
      (''user'', JObj [(''id'', JStr ''U2''), (''name'', JStr ''nala'')])]"

text \<open>
  A \<^verbatim>\<open>SnippetOrMessageContainsRule\<close> that looks for a word in every channel, with a
  download that yields an empty text; a shared file announced without its \<^verbatim>\<open>file\<close>
  field, and one whose \<^verbatim>\<open>file\<close> field is an empty object.
\<close>

definition SnippetWatcher :: slack_rule where
  "SnippetWatcher =
     \<lparr> get_applicable_channels = Inr [],
       channel_override = Some (\<lambda>bt channel_id. Inr True),
       should_respond_to_message =
         SnippetOrMessageContainsRule_should_respond_to_message (Inr [''password''])
           (\<lambda>url. Inr ''''),
       get_response_text = (\<lambda>event. (Inr (JStr ''Careful.''), event)) \<rparr>"

definition share_without_file :: dict where
  "share_without_file =
     [(''type'', JStr ''message''), (''subtype'', JStr ''file_share''),
      (''channel'', JStr ''C1''), (''user'', JStr ''U1''), (''text'', JStr ''see this'')]"

definition share_with_empty_file :: dict where
  "share_with_empty_file =
     [(''type'', JStr ''message''), (''subtype'', JStr ''file_share''),
      (''channel'', JStr ''C1''), (''user'', JStr ''U1''), (''text'', JStr ''see this''),
      (''file'', JObj [])]"

text \<open>A bot after its directory has been loaded, with an operator to report to.\<close>

definition example_bot :: slack_bot where
  "example_bot =
     \<lparr> token = ''xoxb'', report_to_user = Some ''U9'', me = JStr ''U0'',
       id_to_user = [(JStr ''U0'', JStr ''bot''), (JStr ''U1'', JStr ''simba'')],
       user_to_id = [(JStr ''bot'', JStr ''U0''), (JStr ''simba'', JStr ''U1'')],
       id_to_channel = [(JStr ''C1'', JStr ''random'')],
       channel_to_id = [(JStr ''random'', JStr ''C1'')] \<rparr>"

text \<open>
  A message in the channel \<^verbatim>\<open>random\<close> from another user, its readable rendering
  after a batch, and the action by which \<^verbatim>\<open>AreYouListening\<close> answers it.
\<close>

definition question :: dict where
  "question = [(''type'', JStr ''message''), (''channel'', JStr ''C1''), (''user'', JStr ''U1''),
               (''text'', JStr ''Are you there?'')]"

definition question_shown :: dict where
  "question_shown = [(''type'', JStr ''message''), (''channel'', JStr ''C1''), (''user'', JStr ''U1''),
               (''text'', JStr ''Are you there?''), (''thread_ts'', JNull),
               (''channel_name'', JStr ''random''), (''user_name'', JStr ''simba'')]"

definition answer :: dict where
  "answer = [(''method'', JStr ''chat.postMessage''), (''channel'', JStr ''C1''),
             (''as_user'', JBool True),
             (''text'', JStr ''Yes. You can't see me, but I'm right behind you.'')]"

text \<open>A message whose text is null.\<close>

definition untexted :: dict where
  "untexted = [(''type'', JStr ''message''), (''channel'', JStr ''C1''), (''user'', JStr ''U1''),
               (''text'', JNull)]"

text \<open>
  A service that delivers its members in three pages of 100, 100 and 50 items, the last
  one without a cursor; and one whose only page comes with an empty cursor.
\<close>

definition three_pages :: server where
  "three_pages req =
     (case map_of (snd req) ''cursor'' of
        None \<Rightarrow>
          JObj [(''ok'', JBool True), (''members'', JList (map JNum [0..99])),
                (''response_metadata'', JObj [(''next_cursor'', JStr ''page2'')])]
      | Some c \<Rightarrow>
          if c = Json (JStr ''page2'') then
            JObj [(''ok'', JBool True), (''members'', JList (map JNum [100..199])),
                  (''response_metadata'', JObj [(''next_cursor'', JStr ''page3'')])]
          else
            JObj [(''ok'', JBool True), (''members'', JList (map JNum [200..249]))])"

definition ending_with_empty_cursor :: server where
  "ending_with_empty_cursor req =
     JObj [(''ok'', JBool True), (''members'', JList [JNum 1, JNum 2]),
           (''response_metadata'', JObj [(''next_cursor'', JStr '''')])]"

text \<open>
  A gateway that accepts the handshake and knows two users and one channel.
\<close>

definition small_team :: server where
  "small_team req =
     (if fst req = Json (JStr ''rtm.connect'') then
        JObj [(''ok'', JBool True), (''url'', JStr ''wss://gateway/1''),
              (''self'', JObj [(''id'', JStr ''U0'')])]
      else if fst req = Json (JStr ''users.list'') then
        JObj [(''ok'', JBool True),
              (''members'', JList [JObj [(''id'', JStr ''U0''), (''name'', JStr ''bot'')],
                                   JObj [(''id'', JStr ''U1''), (''name'', JStr ''simba'')]])]
      else
        JObj [(''ok'', JBool True),
              (''channels'', JList [JObj [(''id'', JStr ''C1''), (''name'', JStr ''random'')]])])"

section \<open>Lookups in an event\<close>

lemma event_getitem_fst: "fst (event_getitem event k) = dict_get event k JNull"
  by (simp add: event_getitem_def dict_getitem_def dict_get_def split: option.splits)

lemma event_getitem_bound:
  "map_of event k = Some v \<Longrightarrow> event_getitem event k = (v, event)"
  by (simp add: event_getitem_def dict_getitem_def)

lemma event_getitem_view:
  "dict_get (snd (event_getitem event k)) k' JNull = dict_get event k' JNull"
  by (simp add: event_getitem_def dict_getitem_def dict_get_def dict_setitem_def update_conv'
           split: option.splits)

section \<open>Event and channel filtering\<close>

text \<open>
  Claim C7. For every rule (whatever its channel filter, message predicate and response
  generator) and every event whose \<^verbatim>\<open>type\<close> field is not \<^verbatim>\<open>"message"\<close>,
  \<^verbatim>\<open>should_respond_to_event\<close> returns false, whatever else the event holds.
\<close>

theorem non_message_event_not_responded:
  assumes "dict_get event ''type'' JNull \<noteq> JStr ''message''"
  shows "fst (should_respond_to_event self bt event) = Inr False"
  using assms event_getitem_fst [of event "''type''"]
  by (auto simp: should_respond_to_event_def split: prod.splits)

theorem non_message_event_not_responded_witness:
  "dict_get [(''type'', JStr ''reaction_added''), (''channel'', JStr ''C1''),
             (''text'', JStr ''are you there'')] ''type'' JNull \<noteq> JStr ''message''
   \<and> fst (should_respond_to_event AreYouListening example_bot
            [(''type'', JStr ''reaction_added''), (''channel'', JStr ''C1''),
             (''text'', JStr ''are you there'')]) = Inr False"
proof -
  have h: "dict_get [(''type'', JStr ''reaction_added''), (''channel'', JStr ''C1''),
             (''text'', JStr ''are you there'')] ''type'' JNull \<noteq> JStr ''message''"
    by (simp add: dict_get_def)
  from non_message_event_not_responded [OF h] h show ?thesis by blast
qed

text \<open>
  Claim C10. For a rule that uses the default channel filter, a channel id (a string,
  null, or another hashable value) that the id-to-name table of the directory does not
  hold is answered with false, whatever the rule's applicable channel names are, also
  when the rule does not supply them at all; only a name that the table resolves is
  tested for membership in that list.
\<close>

theorem unknown_channel_not_responded:
  assumes "channel_override self = None"
  shows "(hashable channel_id \<and> map_of (id_to_channel bt) channel_id = None
            \<longrightarrow> should_respond_to_channel self bt channel_id = Inr False)
       \<and> (hashable channel_id \<and> map_of (id_to_channel bt) channel_id = Some name \<and> name \<noteq> JNull
            \<longrightarrow> should_respond_to_channel self bt channel_id =
                (case get_applicable_channels self of
                   Inl e \<Rightarrow> Inl e
                 | Inr names \<Rightarrow> Inr (name \<in> set (map JStr names))))"
  using assms
  by (simp add: should_respond_to_channel_def SlackRule_should_respond_to_channel_def table_get_def)

theorem unknown_channel_not_responded_witness:
  "should_respond_to_channel SlackRule example_bot JNull = Inr False
   \<and> should_respond_to_channel AreYouListening example_bot (JStr ''C7'') = Inr False
   \<and> should_respond_to_channel AreYouListening example_bot (JStr ''C1'') = Inr True"
proof -
  have a: "channel_override SlackRule = None" by (simp add: SlackRule_def)
  have b: "channel_override AreYouListening = None" by (simp add: AreYouListening_def)
  have c: "hashable JNull \<and> map_of (id_to_channel example_bot) JNull = None"
    by (simp add: example_bot_def)
  have d: "hashable (JStr ''C7'') \<and> map_of (id_to_channel example_bot) (JStr ''C7'') = None"
    by (simp add: example_bot_def)
  have e: "hashable (JStr ''C1'')
           \<and> map_of (id_to_channel example_bot) (JStr ''C1'') = Some (JStr ''random'')
           \<and> JStr ''random'' \<noteq> JNull"
    by (simp add: example_bot_def)
  have f: "get_applicable_channels AreYouListening = Inr [''random'']"
    by (simp add: AreYouListening_def)
  show ?thesis
    using unknown_channel_not_responded [OF a, of JNull example_bot]
      unknown_channel_not_responded [OF b, of "JStr ''C7''" example_bot]
      unknown_channel_not_responded [OF b, of "JStr ''C1''" example_bot "JStr ''random''"]
      c d e f
    by simp
qed

section \<open>Matching by MessageContainsRule\<close>

lemma str_in_sublist: "str_in q t = sublist q t"
  by (induction t) (auto simp: sublist_Cons_right)

lemma any_query_in_text_string:
  "map_of message ''text'' = Some (JStr t) \<Longrightarrow>
   any_query_in_text qs message = (Inr (\<exists>q\<in>set qs. sublist q (lower t)), message)"
  by (induction qs) (auto simp: event_getitem_bound lower_method_def str_in_sublist)

lemma of_char_lower_char:
  "(of_char (lower_char c) :: nat) =
     (if upper_code (of_char c) then of_char c + 32 else of_char c)"
proof (cases "upper_code (of_char c)")
  case True
  then have "(of_char c :: nat) + 32 < 256" by (auto simp: upper_code_def)
  then have "((of_char c :: nat) + 32) mod 256 = of_char c + 32" by simp
  then show ?thesis using True by (simp add: lower_char_def Let_def)
next
  case False
  then show ?thesis by (simp add: lower_char_def Let_def)
qed

lemma same_letter_lower_char: "same_letter c d \<longleftrightarrow> lower_char c = lower_char d"
proof -
  have "lower_char c = lower_char d
          \<longleftrightarrow> (of_char (lower_char c) :: nat) = of_char (lower_char d)"
    by simp
  moreover have "c = d \<longleftrightarrow> (of_char c :: nat) = of_char d" by simp
  ultimately show ?thesis
    unfolding of_char_lower_char same_letter_def
    by (auto simp: upper_code_def)
qed

lemma case_variant_lower: "case_variant s t \<longleftrightarrow> lower s = lower t"
proof -
  have "list_all2 (\<lambda>c d. lower_char c = lower_char d) s t \<longleftrightarrow> map lower_char s = map lower_char t"
    by (simp add: list_all2_eq [of "map lower_char s"] list_all2_map1 list_all2_map2)
  then show ?thesis by (simp add: case_variant_def lower_def same_letter_lower_char [abs_def])
qed

lemma lower_fixed: "\<forall>c\<in>set q. \<not> upper_code (of_char c) \<Longrightarrow> lower q = q"
  by (induction q) (auto simp: lower_def lower_char_def Let_def)

lemma case_insensitive_substring_lower:
  "case_insensitive_substring q t \<longleftrightarrow> sublist (lower q) (lower t)"
proof
  assume "case_insensitive_substring q t"
  then obtain s where "sublist s t" and "lower q = lower s"
    by (auto simp: case_insensitive_substring_def case_variant_lower)
  then show "sublist (lower q) (lower t)"
    using map_mono_sublist [of s t lower_char] by (simp add: lower_def)
next
  assume "sublist (lower q) (lower t)"
  then obtain s where "sublist s t" and "lower q = lower s"
    using sublist_map_rightE [of "lower q" lower_char t] by (auto simp: lower_def)
  then show "case_insensitive_substring q t"
    by (auto simp: case_insensitive_substring_def case_variant_lower)
qed

text \<open>
  Claim C4, as the code has it. For every MessageContainsRule and every message whose
  text is a string (of code points below 256, as every string here),
  \<^verbatim>\<open>should_respond_to_message\<close> returns true if and only if some query string
  occurs, exactly as the rule declares it, as a substring of the lower-cased text. So
  the result is unchanged when letters of the text are replaced by their counterparts
  of the other case; and when the query strings hold no upper-case letter, it is
  case-insensitive substring containment.
\<close>

theorem contains_rule_matches_lowered_text:
  assumes "map_of message ''text'' = Some (JStr t)"
  shows "MessageContainsRule_should_respond_to_message (Inr qs) message =
           (Inr (\<exists>q\<in>set qs. sublist q (lower t)), message)
       \<and> (\<forall>t'. case_variant t t' \<longrightarrow>
             fst (MessageContainsRule_should_respond_to_message (Inr qs)
                    (dict_setitem message ''text'' (JStr t'))) =
             fst (MessageContainsRule_should_respond_to_message (Inr qs) message))
       \<and> ((\<forall>q\<in>set qs. \<forall>c\<in>set q. \<not> upper_code (of_char c)) \<longrightarrow>
             fst (MessageContainsRule_should_respond_to_message (Inr qs) message) =
             Inr (\<exists>q\<in>set qs. case_insensitive_substring q t))"
proof -
  have a: "MessageContainsRule_should_respond_to_message (Inr qs) message =
           (Inr (\<exists>q\<in>set qs. sublist q (lower t)), message)"
    using assms
    by (simp add: MessageContainsRule_should_respond_to_message_def any_query_in_text_string)
  have b: "fst (MessageContainsRule_should_respond_to_message (Inr qs)
                    (dict_setitem message ''text'' (JStr t'))) =
             fst (MessageContainsRule_should_respond_to_message (Inr qs) message)"
    if "case_variant t t'" for t'
  proof -
    have "map_of (dict_setitem message ''text'' (JStr t')) ''text'' = Some (JStr t')"
      by (simp add: dict_setitem_def update_conv')
    moreover have "lower t' = lower t" using that by (simp add: case_variant_lower)
    ultimately show ?thesis using a
      by (simp add: MessageContainsRule_should_respond_to_message_def any_query_in_text_string)
  qed
  have c: "fst (MessageContainsRule_should_respond_to_message (Inr qs) message) =
             Inr (\<exists>q\<in>set qs. case_insensitive_substring q t)"
    if "\<forall>q\<in>set qs. \<forall>c\<in>set q. \<not> upper_code (of_char c)"
  proof -
    have "\<forall>q\<in>set qs. lower q = q" using that lower_fixed by blast
    then show ?thesis using a by (simp add: case_insensitive_substring_lower)
  qed
  from a b c show ?thesis by blast
qed

theorem contains_rule_matches_lowered_text_witness:
  "map_of [(''type'', JStr ''message''), (''text'', JStr ''Does anyone love me?'')] ''text''
     = Some (JStr ''Does anyone love me?'')
   \<and> MessageContainsRule_should_respond_to_message (Inr [''love me''])
       [(''type'', JStr ''message''), (''text'', JStr ''Does anyone love me?'')] =
     (Inr True, [(''type'', JStr ''message''), (''text'', JStr ''Does anyone love me?'')])
   \<and> case_variant ''Does anyone love me?'' ''DOES anyone Love ME?''
   \<and> fst (MessageContainsRule_should_respond_to_message (Inr [''love me''])
            (dict_setitem [(''type'', JStr ''message''), (''text'', JStr ''Does anyone love me?'')]
               ''text'' (JStr ''DOES anyone Love ME?''))) = Inr True
   \<and> case_insensitive_substring ''love me'' ''Does anyone love me?''
   \<and> fst (MessageContainsRule_should_respond_to_message (Inr [[CHR ''c'', CHR ''a'', CHR ''f'', CHR 0xE9]])
            [(''text'', JStr [CHR ''C'', CHR ''A'', CHR ''F'', CHR 0xC9])]) = Inr True"
proof -
  have h: "map_of [(''type'', JStr ''message''), (''text'', JStr ''Does anyone love me?'')] ''text''
             = Some (JStr ''Does anyone love me?'')" by simp
  have s: "sublist ''love me'' (lower ''Does anyone love me?'')" by code_simp
  have v: "case_variant ''Does anyone love me?'' ''DOES anyone Love ME?''" by code_simp
  have q: "\<forall>q\<in>set [''love me'']. \<forall>c\<in>set q. \<not> upper_code (of_char c)" by code_simp
  have h': "map_of [(''text'', JStr [CHR ''C'', CHR ''A'', CHR ''F'', CHR 0xC9])] ''text''
             = Some (JStr [CHR ''C'', CHR ''A'', CHR ''F'', CHR 0xC9])" by simp
  have s': "sublist [CHR ''c'', CHR ''a'', CHR ''f'', CHR 0xE9]
              (lower [CHR ''C'', CHR ''A'', CHR ''F'', CHR 0xC9])" by code_simp
  note t = contains_rule_matches_lowered_text [OF h, of "[''love me'']"]
  note t' = contains_rule_matches_lowered_text
              [OF h', of "[[CHR ''c'', CHR ''a'', CHR ''f'', CHR 0xE9]]"]
  let ?msg = "[(''type'', JStr ''message''), (''text'', JStr ''Does anyone love me?'')]"
  have a: "MessageContainsRule_should_respond_to_message (Inr [''love me'']) ?msg
             = (Inr True, ?msg)"
    using t s by simp
  have b: "fst (MessageContainsRule_should_respond_to_message (Inr [''love me''])
                 (dict_setitem ?msg ''text'' (JStr ''DOES anyone Love ME?'')))
             = fst (MessageContainsRule_should_respond_to_message (Inr [''love me'']) ?msg)"
    using t v by blast
  have c: "fst (MessageContainsRule_should_respond_to_message (Inr [''love me'']) ?msg)
             = Inr (\<exists>q\<in>set [''love me'']. case_insensitive_substring q ''Does anyone love me?'')"
    using t q by blast
  have d: "case_insensitive_substring ''love me'' ''Does anyone love me?''"
    using a c by simp
  have e: "fst (MessageContainsRule_should_respond_to_message
                  (Inr [[CHR ''c'', CHR ''a'', CHR ''f'', CHR 0xE9]])
                  [(''text'', JStr [CHR ''C'', CHR ''A'', CHR ''F'', CHR 0xC9])]) = Inr True"
    using t' s' by simp
  show ?thesis using h a b v d e by simp
qed

text \<open>
  The claim as the specification words it fails for a query string that holds an
  upper-case letter: the query is compared as it is with the lower-cased text, so the
  result does change with the letter case of the query.
\<close>

theorem contains_rule_query_case_counterexample:
  "fst (MessageContainsRule_should_respond_to_message (Inr [''Love Me''])
          [(''type'', JStr ''message''), (''text'', JStr ''Does anyone love me?'')]) = Inr False
   \<and> case_insensitive_substring ''Love Me'' ''Does anyone love me?''
   \<and> case_variant ''Love Me'' ''love me''
   \<and> fst (MessageContainsRule_should_respond_to_message (Inr [''love me''])
          [(''type'', JStr ''message''), (''text'', JStr ''Does anyone love me?'')]) = Inr True"
  by code_simp

section \<open>The dispatcher\<close>

text \<open>
  Claim C1. An event whose \<^verbatim>\<open>user\<close> field equals the bot's own identity is
  dropped before anything else happens: \<^verbatim>\<open>_process_event\<close> returns at once, no
  rule's reaction is started, nothing is posted and nothing is logged.
\<close>

theorem own_events_dropped:
  assumes "dict_get event ''user'' JNull = me bt"
  shows "process_event srv bt rules event w = (Inr (), w)"
  using assms event_getitem_fst [of event "''user''"]
  by (auto simp: process_event_def split: prod.splits)

theorem own_events_dropped_witness:
  "dict_get [(''type'', JStr ''message''), (''channel'', JStr ''C1''), (''user'', JStr ''U0''),
             (''text'', JStr ''Are you there?'')] ''user'' JNull = me example_bot
   \<and> process_event acknowledging example_bot [instance_of AreYouListening]
        [(''type'', JStr ''message''), (''channel'', JStr ''C1''), (''user'', JStr ''U0''),
         (''text'', JStr ''Are you there?'')] untouched = (Inr (), untouched)"
proof -
  have h: "dict_get [(''type'', JStr ''message''), (''channel'', JStr ''C1''), (''user'', JStr ''U0''),
             (''text'', JStr ''Are you there?'')] ''user'' JNull = me example_bot"
    by (simp add: dict_get_def example_bot_def)
  from own_events_dropped [OF h] h show ?thesis by blast
qed

subsection \<open>What reporting and the tasks do to the world\<close>

lemma api_call_posted:
  "posted (snd (api_call srv bt data w)) = posted w @ requests_of bt data"
  by (simp add: api_call_def requests_of_def Let_def split: option.splits)

lemma api_call_logged: "logged (snd (api_call srv bt data w)) = logged w"
  by (simp add: api_call_def Let_def split: option.splits)

lemma api_call_method:
  "map_of data ''method'' = Some m \<Longrightarrow> \<exists>r. fst (api_call srv bt data w) = Inr r"
  by (simp add: api_call_def Let_def)

lemma log_and_report_result:
  "log_and_report srv bt msg lvl w =
     (Inr (), w\<lparr>logged := logged w @ [(lvl, msg)], posted := posted w @ report_requests bt msg\<rparr>)"
  by (simp add: log_and_report_def report_requests_def api_call_def requests_of_def Let_def
           split: option.splits)

lemma report_pending_result:
  "report_pending srv bt i futs event w =
     (Inr (), w\<lparr>cancelled := cancelled w @ pending_positions i futs,
               logged := logged w @ [(ERROR, Timeout_message event). f \<leftarrow> futs, f = Pending],
               posted := posted w @ concat [report_requests bt (Timeout_message event). f \<leftarrow> futs, f = Pending]\<rparr>)"
proof (induction futs arbitrary: i w)
  case Nil
  show ?case by simp
next
  case (Cons f futs)
  show ?case by (cases f) (simp_all add: Cons.IH log_and_report_result)
qed

lemma report_done_result:
  "report_done srv bt futs event w =
     (Inr (), w\<lparr>logged := logged w @ [(ERROR, Error_message e event). Raised e \<leftarrow> futs],
               posted := posted w @ concat [report_requests bt (Error_message e event). Raised e \<leftarrow> futs]\<rparr>)"
proof (induction futs arbitrary: w)
  case Nil
  show ?case by simp
next
  case (Cons f futs)
  show ?case by (cases f) (simp_all add: Cons.IH log_and_report_result)
qed

lemma handle_futures_result:
  assumes "futs \<noteq> []" and "readable_if_true bt event = Inr shown"
  shows "handle_futures srv bt futs event w =
     (Inr (), w\<lparr>cancelled := cancelled w @ pending_positions 0 futs,
               logged := logged w @ [(ERROR, Timeout_message shown). f \<leftarrow> futs, f = Pending]
                             @ [(ERROR, Error_message e shown). Raised e \<leftarrow> futs],
               posted := posted w
                 @ concat [report_requests bt (Timeout_message shown). f \<leftarrow> futs, f = Pending]
                 @ concat [report_requests bt (Error_message e shown). Raised e \<leftarrow> futs]\<rparr>)"
  using assms by (simp add: handle_futures_def report_pending_result report_done_result)

lemma handle_futures_posted_prefix:
  "prefix (posted w) (posted (snd (handle_futures srv bt futs event w)))"
  by (simp add: handle_futures_def report_pending_result report_done_result split: sum.splits)

lemma map_of_Json:
  "map_of (map (\<lambda>kv. (fst kv, Json (snd kv))) act) k = map_option Json (map_of act k)"
  by (induction act) auto

lemma submit_responses_all:
  "\<forall>act\<in>set acts. map_of act ''method'' \<noteq> None \<Longrightarrow>
   submit_responses srv bt acts w = (Inr (), w\<lparr>posted := posted w @ action_requests bt acts\<rparr>)"
proof (induction acts arbitrary: w)
  case Nil
  show ?case by (simp add: action_requests_def)
next
  case (Cons act acts)
  then obtain m where m: "map_of act ''method'' = Some m" by auto
  have "api_call srv bt (map (\<lambda>kv. (fst kv, Json (snd kv))) act) w =
          (Inr (srv (hd (requests_of bt (map (\<lambda>kv. (fst kv, Json (snd kv))) act)))),
           w\<lparr>posted := posted w @ requests_of bt (map (\<lambda>kv. (fst kv, Json (snd kv))) act)\<rparr>)"
    using m by (simp add: api_call_def requests_of_def map_of_Json Let_def)
  then show ?case using Cons by (simp add: action_requests_def)
qed

lemma submit_responses_frame:
  "prefix (posted w) (posted (snd (submit_responses srv bt acts w)))
   \<and> logged (snd (submit_responses srv bt acts w)) = logged w
   \<and> cancelled (snd (submit_responses srv bt acts w)) = cancelled w"
proof (induction acts arbitrary: w)
  case Nil
  show ?case by simp
next
  case (Cons act acts)
  obtain r w1 where a: "api_call srv bt (map (\<lambda>kv. (fst kv, Json (snd kv))) act) w = (r, w1)"
    by (cases "api_call srv bt (map (\<lambda>kv. (fst kv, Json (snd kv))) act) w")
  have p: "prefix (posted w) (posted w1) \<and> logged w1 = logged w \<and> cancelled w1 = cancelled w"
    using a by (auto simp: api_call_def Let_def split: option.splits)
  show ?case
  proof (cases r)
    case (Inl e)
    then show ?thesis using a p by simp
  next
    case (Inr x)
    then show ?thesis using a p Cons [of w1] by (auto intro: prefix_order.trans)
  qed
qed

lemma react_to_rule_frame:
  "prefix (posted w) (posted (snd (snd (react_to_rule srv bt i rule event w))))
   \<and> errors_logged (snd (snd (react_to_rule srv bt i rule event w))) = errors_logged w
   \<and> cancelled (snd (snd (react_to_rule srv bt i rule event w))) = cancelled w"
proof -
  obtain out e1 where r: "react_method rule bt event = (out, e1)"
    by (cases "react_method rule bt event")
  show ?thesis
  proof (cases out)
    case (Returned acts)
    let ?w0 = "w\<lparr>invoked := invoked w @ [i]\<rparr>"
    let ?w1 = "if acts \<noteq> [] then ?w0\<lparr>logged := logged ?w0 @ [(INFO, Responding_message i)]\<rparr> else ?w0"
    have f: "prefix (posted ?w1) (posted (snd (submit_responses srv bt acts ?w1)))
             \<and> logged (snd (submit_responses srv bt acts ?w1)) = logged ?w1
             \<and> cancelled (snd (submit_responses srv bt acts ?w1)) = cancelled ?w1"
      using submit_responses_frame [of ?w1 srv bt acts] by blast
    have "snd (snd (react_to_rule srv bt i rule event w)) = snd (submit_responses srv bt acts ?w1)"
      using r Returned by (simp add: react_to_rule_def Let_def split: prod.splits sum.splits)
    then show ?thesis using f by (auto simp: errors_logged_def)
  qed (use r in \<open>simp_all add: react_to_rule_def errors_logged_def\<close>)
qed

lemma run_tasks_frame:
  "prefix (posted w) (posted (snd (snd (run_tasks srv bt i rules event w))))
   \<and> errors_logged (snd (snd (run_tasks srv bt i rules event w))) = errors_logged w
   \<and> cancelled (snd (snd (run_tasks srv bt i rules event w))) = cancelled w"
proof (induction rules arbitrary: i event w)
  case Nil
  show ?case by simp
next
  case (Cons rule rules)
  obtain f e1 w1 where a: "react_to_rule srv bt i rule event w = (f, e1, w1)"
    by (cases "react_to_rule srv bt i rule event w")
  obtain fs e2 w2 where b: "run_tasks srv bt (Suc i) rules e1 w1 = (fs, e2, w2)"
    by (cases "run_tasks srv bt (Suc i) rules e1 w1")
  have "prefix (posted w) (posted w1) \<and> errors_logged w1 = errors_logged w
          \<and> cancelled w1 = cancelled w"
    using react_to_rule_frame [of w srv bt i rule event] a by simp
  moreover have "prefix (posted w1) (posted w2) \<and> errors_logged w2 = errors_logged w1
          \<and> cancelled w2 = cancelled w1"
    using Cons [of w1 "Suc i" e1] b by simp
  ultimately show ?case using a b by (auto intro: prefix_order.trans)
qed

lemma submit_responses_fails:
  "\<not> (\<forall>act\<in>set acts. map_of act ''method'' \<noteq> None) \<Longrightarrow>
   fst (submit_responses srv bt acts w) = Inl KeyError"
proof (induction acts arbitrary: w)
  case Nil
  then show ?case by simp
next
  case (Cons act acts)
  show ?case
  proof (cases "map_of act ''method''")
    case None
    then show ?thesis by (simp add: api_call_def map_of_Json)
  next
    case (Some m)
    then have "\<not> (\<forall>act\<in>set acts. map_of act ''method'' \<noteq> None)" using Cons.prems by auto
    then show ?thesis using Some Cons.IH by (simp add: api_call_def map_of_Json Let_def)
  qed
qed

lemma react_to_rule_outcome:
  "react_method rule bt event = (out, e1) \<Longrightarrow>
   fst (react_to_rule srv bt i rule event w) = task_outcome out
   \<and> fst (snd (react_to_rule srv bt i rule event w)) = e1"
proof (cases out)
  case (Returned acts)
  assume r: "react_method rule bt event = (out, e1)"
  show ?thesis
  proof (cases "\<forall>act\<in>set acts. map_of act ''method'' \<noteq> None")
    case True
    then show ?thesis using r Returned
      by (simp add: react_to_rule_def task_outcome_def submit_responses_all Let_def)
  next
    case False
    let ?w0 = "w\<lparr>invoked := invoked w @ [i]\<rparr>"
    let ?w1 = "if acts \<noteq> [] then ?w0\<lparr>logged := logged ?w0 @ [(INFO, Responding_message i)]\<rparr> else ?w0"
    obtain x w2 where s: "submit_responses srv bt acts ?w1 = (x, w2)"
      by (cases "submit_responses srv bt acts ?w1")
    then have "x = Inl KeyError" using submit_responses_fails [OF False, of srv bt ?w1] by simp
    then show ?thesis using r Returned False s
      by (simp add: react_to_rule_def task_outcome_def Let_def)
  qed
qed (simp_all add: react_to_rule_def task_outcome_def)

lemma run_tasks_outcomes:
  "fst (run_tasks srv bt i rules event w) = map task_outcome (fst (reactions bt rules event))
   \<and> fst (snd (run_tasks srv bt i rules event w)) = snd (reactions bt rules event)"
proof (induction rules arbitrary: i event w)
  case Nil
  show ?case by simp
next
  case (Cons rule rules)
  obtain out e1 where r: "react_method rule bt event = (out, e1)"
    by (cases "react_method rule bt event")
  obtain f e1' w1 where a: "react_to_rule srv bt i rule event w = (f, e1', w1)"
    by (cases "react_to_rule srv bt i rule event w")
  have fe: "f = task_outcome out \<and> e1' = e1"
    using react_to_rule_outcome [OF r, of srv i w] a by simp
  show ?case using r a fe Cons [of "Suc i" e1 w1]
    by (auto split: prod.splits)
qed

lemma reactions_length: "length (fst (reactions bt rules event)) = length rules"
proof (induction rules arbitrary: event)
  case Nil
  show ?case by simp
next
  case (Cons rule rules)
  obtain out e1 where r: "react_method rule bt event = (out, e1)"
    by (cases "react_method rule bt event")
  show ?case using r Cons [of e1] by (auto split: prod.splits)
qed

lemma run_tasks_returned_posted:
  assumes "b < length rules" and "fst (reactions bt rules event) ! b = Returned acts"
    and "\<forall>act\<in>set acts. map_of act ''method'' \<noteq> None"
  shows "sublist (action_requests bt acts) (posted (snd (snd (run_tasks srv bt i rules event w))))"
  using assms
proof (induction rules arbitrary: b i event w)
  case Nil
  then show ?case by simp
next
  case (Cons rule rules)
  obtain out e1 where r: "react_method rule bt event = (out, e1)"
    by (cases "react_method rule bt event")
  obtain f e1' w1 where a: "react_to_rule srv bt i rule event w = (f, e1', w1)"
    by (cases "react_to_rule srv bt i rule event w")
  have e1': "e1' = e1" using react_to_rule_outcome [OF r, of srv i w] a by simp
  obtain fs e2 w2 where t: "run_tasks srv bt (Suc i) rules e1 w1 = (fs, e2, w2)"
    by (cases "run_tasks srv bt (Suc i) rules e1 w1")
  have res: "snd (snd (run_tasks srv bt i (rule # rules) event w)) = w2"
    using a e1' t by simp
  show ?case
  proof (cases b)
    case 0
    then have out: "out = Returned acts" using Cons.prems(2) r by (simp split: prod.splits)
    have "w1 = (let w0 = w\<lparr>invoked := invoked w @ [i]\<rparr>;
                    w1 = (if acts \<noteq> [] then w0\<lparr>logged := logged w0 @ [(INFO, Responding_message i)]\<rparr> else w0)
                in w1\<lparr>posted := posted w1 @ action_requests bt acts\<rparr>)"
      using a r out Cons.prems(3) by (simp add: react_to_rule_def submit_responses_all Let_def)
    then have "posted w1 = posted w @ action_requests bt acts" by (simp add: Let_def)
    then have "sublist (action_requests bt acts) (posted w1)" by simp
    moreover have "prefix (posted w1) (posted w2)"
      using run_tasks_frame [of w1 srv bt "Suc i" rules e1] t by simp
    ultimately show ?thesis using res by (metis prefix_imp_sublist sublist_order.order.trans)
  next
    case (Suc b')
    then have "b' < length rules" and "fst (reactions bt rules e1) ! b' = Returned acts"
      using Cons.prems r by (auto split: prod.splits)
    then have "sublist (action_requests bt acts) (posted (snd (snd (run_tasks srv bt (Suc i) rules e1 w1))))"
      using Cons.IH Cons.prems(3) by blast
    then show ?thesis using res t by simp
  qed
qed

lemma raised_reported:
  "Raised e \<in> set futs \<Longrightarrow>
     (ERROR, Error_message e ev) \<in> set [(ERROR, Error_message e ev). Raised e \<leftarrow> futs]
   \<and> set (report_requests bt (Error_message e ev))
       \<subseteq> set (concat [report_requests bt (Error_message e ev). Raised e \<leftarrow> futs])"
  by (induction futs) (auto split: outcome.splits)

lemma pending_reported:
  "Pending \<in> set futs \<Longrightarrow>
     (ERROR, Timeout_message ev) \<in> set [(ERROR, Timeout_message ev). f \<leftarrow> futs, f = Pending]
   \<and> set (report_requests bt (Timeout_message ev))
       \<subseteq> set (concat [report_requests bt (Timeout_message ev). f \<leftarrow> futs, f = Pending])"
  by (induction futs) (auto split: outcome.splits)

lemma count_list_errors_logged:
  "count_list (errors_logged w) (ERROR, m) = count_list (logged w) (ERROR, m)"
proof -
  have "count_list (filter (\<lambda>l. fst l = ERROR) xs) (ERROR, m) = count_list xs (ERROR, m)" for xs
    by (induction xs) auto
  then show ?thesis by (simp add: errors_logged_def)
qed

lemma count_timeouts:
  "count_list ([(ERROR, Timeout_message ev). f \<leftarrow> map task_outcome outs, f = Pending]
               @ [(ERROR, Error_message e ev). Raised e \<leftarrow> map task_outcome outs])
     (ERROR, Timeout_message ev) = count_list outs Pending"
  by (induction outs) (auto simp: task_outcome_def split: outcome.splits)

lemma pending_positions_task_outcome:
  "pending_positions i (map task_outcome outs) = pending_positions i outs"
  by (induction outs arbitrary: i)
     (auto simp: task_outcome_def split: outcome.splits)

lemma pending_positions_member:
  "a < length outs \<Longrightarrow> outs ! a = Pending \<Longrightarrow> i + a \<in> set (pending_positions i outs)"
proof (induction outs arbitrary: i a)
  case Nil
  then show ?case by simp
next
  case (Cons out outs)
  show ?case
  proof (cases a)
    case 0
    then show ?thesis using Cons.prems by simp
  next
    case (Suc a')
    then have "Suc i + a' \<in> set (pending_positions (Suc i) outs)"
      using Cons.IH [of a' "Suc i"] Cons.prems by simp
    then show ?thesis using Suc by (cases out) simp_all
  qed
qed

lemma dispatch_reports:
  assumes "rules \<noteq> []"
    and "readable_if_true bt (Some (snd (reactions bt rules event))) = Inr shown"
  shows "fst (dispatch srv bt rules event w) = Inr ()"
    and "errors_logged (snd (dispatch srv bt rules event w)) =
           errors_logged w
           @ [(ERROR, Timeout_message shown). f \<leftarrow> map task_outcome (fst (reactions bt rules event)), f = Pending]
           @ [(ERROR, Error_message e shown). Raised e \<leftarrow> map task_outcome (fst (reactions bt rules event))]"
    and "set (concat [report_requests bt (Timeout_message shown). f \<leftarrow> map task_outcome (fst (reactions bt rules event)), f = Pending])
          \<union> set (concat [report_requests bt (Error_message e shown). Raised e \<leftarrow> map task_outcome (fst (reactions bt rules event))])
          \<subseteq> set (posted (snd (dispatch srv bt rules event w)))"
    and "cancelled (snd (dispatch srv bt rules event w)) =
           cancelled w @ pending_positions 0 (fst (reactions bt rules event))"
proof -
  obtain futs e1 w1 where t: "run_tasks srv bt 0 rules event w = (futs, e1, w1)"
    by (cases "run_tasks srv bt 0 rules event w")
  have futs: "futs = map task_outcome (fst (reactions bt rules event))"
    and e1: "e1 = snd (reactions bt rules event)"
    using run_tasks_outcomes [of srv bt 0 rules event w] t by simp_all
  have ne: "futs \<noteq> []" using futs assms(1) reactions_length [of bt rules event] by auto
  have w1: "errors_logged w1 = errors_logged w" and c1: "cancelled w1 = cancelled w"
    using run_tasks_frame [of w srv bt 0 rules event] t by simp_all
  note h = handle_futures_result [OF ne, of bt "Some e1" shown srv w1]
  have d: "dispatch srv bt rules event w = handle_futures srv bt futs (Some e1) w1"
    using t by (simp add: dispatch_def)
  show "fst (dispatch srv bt rules event w) = Inr ()"
    using d h assms(2) e1 by simp
  show "errors_logged (snd (dispatch srv bt rules event w)) =
           errors_logged w
           @ [(ERROR, Timeout_message shown). f \<leftarrow> map task_outcome (fst (reactions bt rules event)), f = Pending]
           @ [(ERROR, Error_message e shown). Raised e \<leftarrow> map task_outcome (fst (reactions bt rules event))]"
    using d h assms(2) e1 w1 futs by (simp add: errors_logged_def)
  show "set (concat [report_requests bt (Timeout_message shown). f \<leftarrow> map task_outcome (fst (reactions bt rules event)), f = Pending])
          \<union> set (concat [report_requests bt (Error_message e shown). Raised e \<leftarrow> map task_outcome (fst (reactions bt rules event))])
          \<subseteq> set (posted (snd (dispatch srv bt rules event w)))"
    using d h assms(2) e1 futs by auto
  show "cancelled (snd (dispatch srv bt rules event w)) =
           cancelled w @ pending_positions 0 (fst (reactions bt rules event))"
    using d h assms(2) e1 futs c1 by (simp add: pending_positions_task_outcome)
qed

lemma dispatch_submits:
  assumes "b < length rules" and "fst (reactions bt rules event) ! b = Returned acts"
    and "\<forall>act\<in>set acts. map_of act ''method'' \<noteq> None"
  shows "sublist (action_requests bt acts) (posted (snd (dispatch srv bt rules event w)))"
proof -
  obtain futs e1 w1 where t: "run_tasks srv bt 0 rules event w = (futs, e1, w1)"
    by (cases "run_tasks srv bt 0 rules event w")
  have "sublist (action_requests bt acts) (posted w1)"
    using run_tasks_returned_posted [OF assms, of srv 0 w] t by simp
  moreover have "prefix (posted w1) (posted (snd (handle_futures srv bt futs (Some e1) w1)))"
    by (rule handle_futures_posted_prefix)
  ultimately show ?thesis using t
    by (simp add: dispatch_def) (metis prefix_imp_sublist sublist_order.order.trans)
qed

text \<open>
  What holds of a batch whose event can be rendered for the report: when the reaction
  of one rule raises and that of another returns actions (each naming its method), the
  requests of these actions are posted in their order, \<^verbatim>\<open>_handle_futures\<close> returns
  normally, the exception is logged at level ERROR with the rendered event, and the
  message is posted to the operator if one is configured.
\<close>

lemma renderable_failure_is_isolated:
  assumes "a < length rules" and "fst (reactions bt rules event) ! a = Raised e"
    and "b < length rules" and "fst (reactions bt rules event) ! b = Returned acts"
    and "\<forall>act\<in>set acts. map_of act ''method'' \<noteq> None"
  shows "sublist (action_requests bt acts) (posted (snd (dispatch srv bt rules event w)))
       \<and> (readable_if_true bt (Some (snd (reactions bt rules event))) = Inr shown \<longrightarrow>
            fst (dispatch srv bt rules event w) = Inr ()
          \<and> (ERROR, Error_message e shown) \<in> set (logged (snd (dispatch srv bt rules event w)))
          \<and> set (report_requests bt (Error_message e shown))
              \<subseteq> set (posted (snd (dispatch srv bt rules event w))))"
proof -
  have ne: "rules \<noteq> []" using assms(1) by auto
  have "task_outcome (fst (reactions bt rules event) ! a) = Raised e"
    using assms(2) by (simp add: task_outcome_def)
  then have r: "Raised e \<in> set (map task_outcome (fst (reactions bt rules event)))"
    using assms(1) reactions_length [of bt rules event]
    by (metis length_map nth_map nth_mem)
  have rep: "fst (dispatch srv bt rules event w) = Inr ()
          \<and> (ERROR, Error_message e shown) \<in> set (logged (snd (dispatch srv bt rules event w)))
          \<and> set (report_requests bt (Error_message e shown))
              \<subseteq> set (posted (snd (dispatch srv bt rules event w)))"
    if s: "readable_if_true bt (Some (snd (reactions bt rules event))) = Inr shown"
  proof -
    note d = dispatch_reports [OF ne s, of srv w]
    note rr = raised_reported [OF r, of shown bt]
    have "(ERROR, Error_message e shown) \<in> set (errors_logged (snd (dispatch srv bt rules event w)))"
      using d(2) rr by simp
    then have "(ERROR, Error_message e shown) \<in> set (logged (snd (dispatch srv bt rules event w)))"
      by (simp add: errors_logged_def)
    then show ?thesis using d(1) d(3) rr by blast
  qed
  show ?thesis using dispatch_submits [OF assms(3,4,5)] rep by blast
qed

text \<open>
  And when the reaction of one rule is unfinished at the deadline: the tasks cancelled
  are exactly the unfinished ones, and the log gains exactly one timeout entry at level
  ERROR for each of them.
\<close>

lemma renderable_timeout_is_cancelled_and_reported:
  assumes "a < length rules" and "fst (reactions bt rules event) ! a = Pending"
    and "b < length rules" and "fst (reactions bt rules event) ! b = Returned acts"
    and "\<forall>act\<in>set acts. map_of act ''method'' \<noteq> None"
  shows "sublist (action_requests bt acts) (posted (snd (dispatch srv bt rules event w)))
       \<and> (readable_if_true bt (Some (snd (reactions bt rules event))) = Inr shown \<longrightarrow>
            fst (dispatch srv bt rules event w) = Inr ()
          \<and> count_list (logged (snd (dispatch srv bt rules event w))) (ERROR, Timeout_message shown)
              = count_list (logged w) (ERROR, Timeout_message shown)
                + count_list (fst (reactions bt rules event)) Pending
          \<and> 0 < count_list (fst (reactions bt rules event)) Pending
          \<and> cancelled (snd (dispatch srv bt rules event w))
              = cancelled w @ pending_positions 0 (fst (reactions bt rules event))
          \<and> a \<in> set (pending_positions 0 (fst (reactions bt rules event)))
          \<and> set (report_requests bt (Timeout_message shown))
              \<subseteq> set (posted (snd (dispatch srv bt rules event w))))"
proof -
  have ne: "rules \<noteq> []" using assms(1) by auto
  have pin: "Pending \<in> set (fst (reactions bt rules event))"
    using assms(1,2) reactions_length [of bt rules event] by (metis nth_mem)
  then have pos: "0 < count_list (fst (reactions bt rules event)) Pending"
    using count_list_0_iff [of "fst (reactions bt rules event)" Pending] by simp
  have "task_outcome Pending = Pending" by (simp add: task_outcome_def)
  then have r: "Pending \<in> set (map task_outcome (fst (reactions bt rules event)))"
    using pin by force
  have rep: "fst (dispatch srv bt rules event w) = Inr ()
          \<and> count_list (logged (snd (dispatch srv bt rules event w))) (ERROR, Timeout_message shown)
              = count_list (logged w) (ERROR, Timeout_message shown)
                + count_list (fst (reactions bt rules event)) Pending
          \<and> cancelled (snd (dispatch srv bt rules event w))
              = cancelled w @ pending_positions 0 (fst (reactions bt rules event))
          \<and> set (report_requests bt (Timeout_message shown))
              \<subseteq> set (posted (snd (dispatch srv bt rules event w)))"
    if s: "readable_if_true bt (Some (snd (reactions bt rules event))) = Inr shown"
  proof -
    note d = dispatch_reports [OF ne s, of srv w]
    note rr = pending_reported [OF r, of shown bt]
    have "count_list (errors_logged (snd (dispatch srv bt rules event w))) (ERROR, Timeout_message shown)
            = count_list (errors_logged w) (ERROR, Timeout_message shown)
              + count_list (fst (reactions bt rules event)) Pending"
      unfolding d(2) using count_timeouts [of shown "fst (reactions bt rules event)"]
      by (simp only: count_list_append)
    then show ?thesis using d(1) d(3) d(4) rr by (simp add: count_list_errors_logged) blast
  qed
  have mem: "a \<in> set (pending_positions 0 (fst (reactions bt rules event)))"
    using pending_positions_member [of a "fst (reactions bt rules event)" 0] assms(1,2)
      reactions_length [of bt rules event] by simp
  show ?thesis using dispatch_submits [OF assms(3,4,5)] rep pos mem by blast
qed

subsection \<open>Events that cannot be rendered\<close>

text \<open>
  Claim C2 says that in every batch an exception raised by one rule is caught and
  reported while the actions of the other rules are submitted. The code does so only
  when it can render the event: \<^verbatim>\<open>get_readable_event\<close> looks the values of
  \<^verbatim>\<open>channel\<close> and \<^verbatim>\<open>user\<close> up in the directory tables before any report is
  written, and for an event whose \<^verbatim>\<open>user\<close> is an object, as in \<^verbatim>\<open>team_join\<close>,
  the lookup raises TypeError. Then \<^verbatim>\<open>_handle_futures\<close>, documented to handle any
  exception of its futures, raises itself and the failure of the rule is reported
  nowhere; the greeting of the other rule has been posted. With the user given by its
  id, the same batch returns normally and reports the failure.
\<close>

theorem failure_unreported_for_object_user:
  "fst (reactions example_bot [Crasher, Welcomer] team_join)
     = [Raised (RuleFailure ''crash''),
        Returned [[(''method'', JStr ''chat.postMessage''), (''channel'', JStr ''C1''),
                   (''text'', JStr ''Welcome!'')]]]
   \<and> process_event acknowledging example_bot [Crasher, Welcomer] team_join untouched
     = (Inl TypeError,
        \<lparr> logged = [(INFO, Responding_message 1)],
          posted = [(Json (JStr ''chat.postMessage''),
                     [(''channel'', Json (JStr ''C1'')), (''text'', Json (JStr ''Welcome!'')),
                      (''token'', Json (JStr ''xoxb''))])],
          invoked = [0, 1], cancelled = [] \<rparr>)
   \<and> fst (process_event acknowledging example_bot [Crasher, Welcomer]
            [(''type'', JStr ''team_join''), (''user'', JStr ''U2'')] untouched) = Inr ()
   \<and> errors_logged (snd (process_event acknowledging example_bot [Crasher, Welcomer]
            [(''type'', JStr ''team_join''), (''user'', JStr ''U2'')] untouched))
     = [(ERROR, Error_message (RuleFailure ''crash'')
                 (Some [(''type'', JStr ''team_join''), (''user'', JStr ''U2''),
                        (''channel_name'', JNull), (''user_name'', JNull)]))]"
  by code_simp

text \<open>
  Claim C3 says that in every batch the tasks unfinished at the deadline are cancelled
  and each cancellation is reported without raising further. For the same reason as
  above the code does neither when the event's \<^verbatim>\<open>user\<close> is an object: TypeError
  leaves \<^verbatim>\<open>_handle_futures\<close> before the loop over the pending tasks, so the
  unfinished task is not cancelled and no timeout is logged. With the user given by its
  id, the same batch returns normally, cancels the task and reports the timeout.
\<close>

theorem timeout_unhandled_for_object_user:
  "fst (reactions example_bot [Stalled, Welcomer] team_join)
     = [Pending,
        Returned [[(''method'', JStr ''chat.postMessage''), (''channel'', JStr ''C1''),
                   (''text'', JStr ''Welcome!'')]]]
   \<and> process_event acknowledging example_bot [Stalled, Welcomer] team_join untouched
     = (Inl TypeError,
        \<lparr> logged = [(INFO, Responding_message 1)],
          posted = [(Json (JStr ''chat.postMessage''),
                     [(''channel'', Json (JStr ''C1'')), (''text'', Json (JStr ''Welcome!'')),
                      (''token'', Json (JStr ''xoxb''))])],
          invoked = [0, 1], cancelled = [] \<rparr>)
   \<and> fst (process_event acknowledging example_bot [Stalled, Welcomer]
            [(''type'', JStr ''team_join''), (''user'', JStr ''U2'')] untouched) = Inr ()
   \<and> cancelled (snd (process_event acknowledging example_bot [Stalled, Welcomer]
            [(''type'', JStr ''team_join''), (''user'', JStr ''U2'')] untouched)) = [0]
   \<and> errors_logged (snd (process_event acknowledging example_bot [Stalled, Welcomer]
            [(''type'', JStr ''team_join''), (''user'', JStr ''U2'')] untouched))
     = [(ERROR, Timeout_message
                 (Some [(''type'', JStr ''team_join''), (''user'', JStr ''U2''),
                        (''channel_name'', JNull), (''user_name'', JNull)]))]"
  by code_simp

section \<open>The event as the rules leave it\<close>

lemma event_getitem_cases:
  "event_getitem event k = (v, event') \<Longrightarrow>
     v = dict_get event k JNull \<and> (\<forall>k'. dict_get event' k' JNull = dict_get event k' JNull)"
  using event_getitem_fst [of event k] event_getitem_view [of event k] by simp

lemma dict_setitem_view:
  "dict_get (dict_setitem d k v) k' dflt = (if k' = k then v else dict_get d k' dflt)"
  by (simp add: dict_get_def dict_setitem_def update_conv')

lemma should_respond_to_event_view:
  assumes "\<forall>ev k. dict_get (snd (should_respond_to_message self ev)) k JNull = dict_get ev k JNull"
  shows "dict_get (snd (should_respond_to_event self bt event)) k JNull =
           (if k = ''text'' \<and> dict_get event ''text'' JNull = JNull
               \<and> dict_get event ''type'' JNull = JStr ''message''
               \<and> should_respond_to_channel self bt (dict_get event ''channel'' JNull) = Inr True
            then JStr '''' else dict_get event k JNull)"
proof -
  obtain ty e1 where 1: "event_getitem event ''type'' = (ty, e1)" by (cases "event_getitem event ''type''")
  obtain ch e2 where 2: "event_getitem e1 ''channel'' = (ch, e2)" by (cases "event_getitem e1 ''channel''")
  obtain tx e3 where 3: "event_getitem e2 ''text'' = (tx, e3)" by (cases "event_getitem e2 ''text''")
  note f1 = event_getitem_cases [OF 1] and f2 = event_getitem_cases [OF 2]
    and f3 = event_getitem_cases [OF 3]
  have ty: "ty = dict_get event ''type'' JNull" using f1 by simp
  have ch: "ch = dict_get event ''channel'' JNull" using f1 f2 by simp
  have tx: "tx = dict_get event ''text'' JNull" using f1 f2 f3 by simp
  have v3: "dict_get e3 k JNull = dict_get event k JNull" using f1 f2 f3 by simp
  have v2: "dict_get e2 k JNull = dict_get event k JNull" using f1 f2 by simp
  have v1: "dict_get e1 k JNull = dict_get event k JNull" using f1 by simp
  show ?thesis
  proof (cases "ty = JStr ''message''")
    case False
    then show ?thesis using 1 v1 ty by (simp add: should_respond_to_event_def)
  next
    case True
    show ?thesis
    proof (cases "should_respond_to_channel self bt ch")
      case (Inl e)
      then show ?thesis using True 1 2 v2 ty ch by (simp add: should_respond_to_event_def)
    next
      case (Inr b)
      show ?thesis
      proof (cases b)
        case False
        then show ?thesis using Inr True 1 2 v2 ty ch by (simp add: should_respond_to_event_def)
      next
        case b: True
        let ?e4 = "if tx = JNull then dict_setitem e3 ''text'' (JStr '''') else e3"
        have "should_respond_to_event self bt event = should_respond_to_message self ?e4"
          using Inr b True 1 2 3 by (simp add: should_respond_to_event_def)
        then have "dict_get (snd (should_respond_to_event self bt event)) k JNull
                     = dict_get ?e4 k JNull"
          using assms by simp
        then show ?thesis using Inr b True ty ch tx v3 by (simp add: dict_setitem_view)
      qed
    qed
  qed
qed

lemma respond_view:
  assumes "\<forall>ev k. dict_get (snd (get_response_text self ev)) k JNull = dict_get ev k JNull"
  shows "dict_get (snd (respond self event)) k JNull = dict_get event k JNull"
proof -
  obtain r e1 where 0: "get_response_text self event = (r, e1)" by (cases "get_response_text self event")
  have e1: "\<forall>k. dict_get e1 k JNull = dict_get event k JNull" using assms 0 by (metis snd_conv)
  obtain ch e2 where 2: "event_getitem e1 ''channel'' = (ch, e2)" by (cases "event_getitem e1 ''channel''")
  obtain ts e3 where 3: "event_getitem e2 ''thread_ts'' = (ts, e3)" by (cases "event_getitem e2 ''thread_ts''")
  note f2 = event_getitem_cases [OF 2] and f3 = event_getitem_cases [OF 3]
  have v3: "dict_get e3 k JNull = dict_get event k JNull" using f2 f3 e1 by simp
  show ?thesis
    using 0 2 3 v3 e1 by (cases r) (simp_all add: respond_def Let_def split: sum.splits)
qed

lemma any_query_in_text_view:
  "dict_get (snd (any_query_in_text qs message)) k JNull = dict_get message k JNull"
proof (induction qs arbitrary: message)
  case Nil
  show ?case by simp
next
  case (Cons q qs)
  obtain tx m1 where 1: "event_getitem message ''text'' = (tx, m1)"
    by (cases "event_getitem message ''text''")
  have v: "dict_get m1 k JNull = dict_get message k JNull"
    using event_getitem_cases [OF 1] by simp
  show ?case using 1 v Cons [of m1] by (simp split: sum.splits)
qed

lemma contains_rule_view:
  "dict_get (snd (MessageContainsRule_should_respond_to_message qs message)) k JNull
     = dict_get message k JNull"
  by (cases qs) (simp_all add: MessageContainsRule_should_respond_to_message_def any_query_in_text_view)

lemma update_absent: "map_of al k = None \<Longrightarrow> AList.update k v al = al @ [(k, v)]"
  by (induction al) (auto split: if_splits)

lemma event_getitem_absent:
  "map_of event k = None \<Longrightarrow> event_getitem event k = (JNull, event @ [(k, JNull)])"
  by (simp add: event_getitem_def dict_getitem_def dict_setitem_def update_absent)

lemma react_without_type:
  assumes "map_of event ''type'' = None"
  shows "react self bt event = (Inr [], event @ [(''type'', JNull)])"
  using assms by (simp add: react_def should_respond_to_event_def event_getitem_absent)

text \<open>
  Claim C8, as the code has it. The event is one mutable mapping shared by the rules of
  a batch. Read through the total lookup, the default pipeline of a rule (event filter,
  channel filter, message predicate, response generation, the rule's own methods
  leaving the values of the event as they are) changes the value of no key but
  \<^verbatim>\<open>text\<close>: a null or absent text of a message in a channel that the rule accepts
  is replaced in the stored event by the empty string, which is what the message
  predicate and the rules that run later find there. And looking up an absent key
  stores a null binding for it: an event without a \<^verbatim>\<open>type\<close> comes back from the
  rule with \<^verbatim>\<open>type\<close> bound to null at its end.
\<close>

theorem pipeline_changes_text_only:
  assumes "\<forall>ev k. dict_get (snd (should_respond_to_message self ev)) k JNull = dict_get ev k JNull"
    and "\<forall>ev k. dict_get (snd (get_response_text self ev)) k JNull = dict_get ev k JNull"
  shows "dict_get (snd (react self bt event)) k JNull =
           (if k = ''text'' \<and> dict_get event ''text'' JNull = JNull
               \<and> dict_get event ''type'' JNull = JStr ''message''
               \<and> should_respond_to_channel self bt (dict_get event ''channel'' JNull) = Inr True
            then JStr '''' else dict_get event k JNull)
       \<and> (map_of event ''type'' = None \<longrightarrow>
            snd (react self bt event) = event @ [(''type'', JNull)])"
proof -
  obtain r e1 where 0: "should_respond_to_event self bt event = (r, e1)"
    by (cases "should_respond_to_event self bt event")
  have v1: "dict_get e1 k JNull =
           (if k = ''text'' \<and> dict_get event ''text'' JNull = JNull
               \<and> dict_get event ''type'' JNull = JStr ''message''
               \<and> should_respond_to_channel self bt (dict_get event ''channel'' JNull) = Inr True
            then JStr '''' else dict_get event k JNull)"
    using should_respond_to_event_view [OF assms(1), of bt event k] 0 by simp
  have unchanged: "dict_get (snd (react self bt event)) k JNull =
           (if k = ''text'' \<and> dict_get event ''text'' JNull = JNull
               \<and> dict_get event ''type'' JNull = JStr ''message''
               \<and> should_respond_to_channel self bt (dict_get event ''channel'' JNull) = Inr True
            then JStr '''' else dict_get event k JNull)"
  proof (cases r)
    case (Inl e)
    then show ?thesis using 0 v1 by (simp add: react_def)
  next
    case (Inr b)
    then show ?thesis using 0 v1 respond_view [OF assms(2), of e1 k]
      by (cases b) (simp_all add: react_def)
  qed
  show ?thesis using unchanged react_without_type [of event self bt] by simp
qed

theorem pipeline_changes_text_only_witness:
  "dict_get (snd (react AreYouListening example_bot untexted)) ''text'' JNull = JStr ''''
   \<and> dict_get (snd (react AreYouListening example_bot untexted)) ''channel'' JNull = JStr ''C1''
   \<and> snd (react AreYouListening example_bot [(''text'', JStr ''Are you there?'')])
       = [(''text'', JStr ''Are you there?''), (''type'', JNull)]"
proof -
  have a: "\<forall>ev k. dict_get (snd (should_respond_to_message AreYouListening ev)) k JNull
                  = dict_get ev k JNull"
    by (simp add: AreYouListening_def contains_rule_view)
  have b: "\<forall>ev k. dict_get (snd (get_response_text AreYouListening ev)) k JNull = dict_get ev k JNull"
    by (simp add: AreYouListening_def)
  have c: "should_respond_to_channel AreYouListening example_bot (dict_get untexted ''channel'' JNull)
             = Inr True"
    by code_simp
  have d: "dict_get untexted ''text'' JNull = JNull" "dict_get untexted ''type'' JNull = JStr ''message''"
    "dict_get untexted ''channel'' JNull = JStr ''C1''"
    by (simp_all add: untexted_def dict_get_def)
  have n: "map_of [(''text'', JStr ''Are you there?'')] ''type'' = None" by simp
  show ?thesis
    using pipeline_changes_text_only [OF a b, of example_bot untexted "''text''"]
      pipeline_changes_text_only [OF a b, of example_bot untexted "''channel''"]
      pipeline_changes_text_only [OF a b, of example_bot "[(''text'', JStr ''Are you there?'')]"]
      c d n
    by simp
qed

text \<open>
  The claim as the specification words it fails: the normalization step writes the
  empty string into the stored event, the response generation stores a null
  \<^verbatim>\<open>thread_ts\<close> in an event that had none, and the event so changed is what the
  batch hands on.
\<close>

theorem event_is_mutated_counterexample:
  "snd (should_respond_to_event AreYouListening example_bot untexted) =
     [(''type'', JStr ''message''), (''channel'', JStr ''C1''), (''user'', JStr ''U1''),
      (''text'', JStr '''')]
   \<and> map_of untexted ''text'' = Some JNull
   \<and> map_of (snd (should_respond_to_event AreYouListening example_bot untexted)) ''text''
       = Some (JStr '''')
   \<and> snd (reactions example_bot [instance_of AreYouListening] untexted) =
     [(''type'', JStr ''message''), (''channel'', JStr ''C1''), (''user'', JStr ''U1''),
      (''text'', JStr '''')]
   \<and> map_of question ''thread_ts'' = None
   \<and> snd (react AreYouListening example_bot question) = question @ [(''thread_ts'', JNull)]"
  by code_simp

section \<open>Missing fields\<close>

lemma get_readable_event_error: "get_readable_event bt ev = Inl e \<Longrightarrow> e = TypeError"
  by (auto simp: get_readable_event_def table_get_def Let_def split: sum.splits if_splits)

lemma log_direct_message_error:
  "fst (log_direct_message bt ev w) = Inl e \<Longrightarrow> e = AttributeError \<or> e = TypeError"
  by (auto simp: log_direct_message_def Let_def
           split: prod.splits if_splits json.splits sum.splits dest: get_readable_event_error)

lemma handle_futures_error:
  "fst (handle_futures srv bt futs event w) = Inl e \<Longrightarrow> e = ValueError \<or> e = TypeError"
  by (auto simp: handle_futures_def readable_if_true_def report_pending_result report_done_result
           split: if_splits sum.splits option.splits dest: get_readable_event_error)

lemma process_event_error:
  "fst (process_event srv bt rules event w) = Inl e \<Longrightarrow> e \<noteq> KeyError"
proof -
  assume a: "fst (process_event srv bt rules event w) = Inl e"
  obtain user e1 where 1: "event_getitem event ''user'' = (user, e1)"
    by (cases "event_getitem event ''user''")
  obtain r e2 w1 where 2: "log_direct_message bt e1 w = (r, e2, w1)"
    by (cases "log_direct_message bt e1 w")
  show ?thesis
  proof (cases "user = me bt")
    case True
    then show ?thesis using a 1 by (simp add: process_event_def)
  next
    case False
    show ?thesis
    proof (cases r)
      case (Inl e')
      then have "e = e'" using a 1 2 False by (simp add: process_event_def)
      then show ?thesis using log_direct_message_error [of bt e1 w e'] 2 Inl by auto
    next
      case (Inr u)
      then have "fst (dispatch srv bt rules e2 w1) = Inl e"
        using a 1 2 False by (simp add: process_event_def)
      then show ?thesis
        using handle_futures_error [of srv bt _ _ _ e]
        by (auto simp: dispatch_def split: prod.splits)
    qed
  qed
qed

lemma any_query_in_text_error:
  "fst (any_query_in_text qs message) = Inl e \<Longrightarrow> e = AttributeError"
proof (induction qs arbitrary: message)
  case Nil
  then show ?case by simp
next
  case (Cons q qs)
  obtain tx m1 where 1: "event_getitem message ''text'' = (tx, m1)"
    by (cases "event_getitem message ''text''")
  show ?case using Cons.prems 1 Cons.IH [of m1]
    by (cases tx) (auto simp: lower_method_def split: if_splits)
qed

lemma react_error:
  assumes "get_applicable_channels self \<noteq> Inl KeyError"
    and "\<forall>f b c. channel_override self = Some f \<longrightarrow> f b c \<noteq> Inl KeyError"
    and "\<forall>ev. fst (should_respond_to_message self ev) \<noteq> Inl KeyError"
    and "\<forall>ev. fst (get_response_text self ev) \<noteq> Inl KeyError"
  shows "fst (react self bt event) \<noteq> Inl KeyError"
proof -
  have ch: "should_respond_to_channel self bt c \<noteq> Inl KeyError" for c
    using assms(1,2)
    by (auto simp: should_respond_to_channel_def SlackRule_should_respond_to_channel_def
          table_get_def split: option.splits sum.splits if_splits)
  have ev: "fst (should_respond_to_event self bt e0) \<noteq> Inl KeyError" for e0
    using ch assms(3)
    by (auto simp: should_respond_to_event_def Let_def split: prod.splits sum.splits bool.splits)
  have rl: "response_list r \<noteq> Inl KeyError" for r
    by (cases r) (simp_all add: response_list_def py_iter_def)
  have rs: "fst (respond self e0) \<noteq> Inl KeyError" for e0
  proof -
    obtain r e1 where 0: "get_response_text self e0 = (r, e1)" by (cases "get_response_text self e0")
    have "r \<noteq> Inl KeyError" using assms(4) 0 by (metis fst_conv)
    then show ?thesis using 0 rl
      by (cases r) (auto simp: respond_def Let_def split: prod.splits sum.splits)
  qed
  obtain r e1 where 0: "should_respond_to_event self bt event = (r, e1)"
    by (cases "should_respond_to_event self bt event")
  have "r \<noteq> Inl KeyError" using ev [of event] 0 by simp
  then show ?thesis using 0 rs [of e1]
    by (cases r) (auto simp: react_def split: bool.splits)
qed

lemma event_getitem_binds: "event_getitem event k = (v, event') \<Longrightarrow> map_of event' k = Some v"
  by (auto simp: event_getitem_def dict_getitem_def dict_setitem_def update_conv'
           split: option.splits)

lemma contains_rule_reacts:
  assumes "channel_override self = None"
    and "get_applicable_channels self = Inr names"
    and "should_respond_to_message self = MessageContainsRule_should_respond_to_message (Inr qs)"
    and "\<forall>ev. get_response_text self ev = (Inr (JStr r), ev)"
    and "hashable (dict_get event ''channel'' JNull)"
    and "dict_get event ''text'' JNull = JNull \<or> (\<exists>t. dict_get event ''text'' JNull = JStr t)"
  shows "\<not> isl (fst (react self bt event))"
proof -
  obtain ty e1 where 1: "event_getitem event ''type'' = (ty, e1)"
    by (cases "event_getitem event ''type''")
  obtain ch e2 where 2: "event_getitem e1 ''channel'' = (ch, e2)"
    by (cases "event_getitem e1 ''channel''")
  obtain tx e3 where 3: "event_getitem e2 ''text'' = (tx, e3)"
    by (cases "event_getitem e2 ''text''")
  note f1 = event_getitem_cases [OF 1] and f2 = event_getitem_cases [OF 2]
    and f3 = event_getitem_cases [OF 3]
  have ch: "ch = dict_get event ''channel'' JNull" using f1 f2 by simp
  have tx: "tx = dict_get event ''text'' JNull" using f1 f2 f3 by simp
  have "\<exists>b. should_respond_to_channel self bt ch = Inr b"
    using assms(1,2,5) ch
    by (auto simp: should_respond_to_channel_def SlackRule_should_respond_to_channel_def
          table_get_def)
  then obtain b where b: "should_respond_to_channel self bt ch = Inr b" by blast
  have responds: "\<not> isl (fst (respond self ev))" for ev
  proof -
    obtain c ev2 where c: "event_getitem ev ''channel'' = (c, ev2)"
      by (cases "event_getitem ev ''channel''")
    obtain ts ev3 where ts: "event_getitem ev2 ''thread_ts'' = (ts, ev3)"
      by (cases "event_getitem ev2 ''thread_ts''")
    show ?thesis
      using assms(4) c ts by (simp add: respond_def response_list_def Let_def)
  qed
  show ?thesis
  proof (cases "ty = JStr ''message''")
    case False
    then show ?thesis using 1 by (simp add: react_def should_respond_to_event_def)
  next
    case True
    show ?thesis
    proof (cases b)
      case False
      then show ?thesis using True 1 2 b by (simp add: react_def should_respond_to_event_def)
    next
      case bt: True
      let ?e4 = "if tx = JNull then dict_setitem e3 ''text'' (JStr '''') else e3"
      have "\<exists>t. map_of ?e4 ''text'' = Some (JStr t)"
      proof (cases "tx = JNull")
        case True
        then show ?thesis by (simp add: dict_setitem_def update_conv')
      next
        case False
        then obtain t where "tx = JStr t" using assms(6) tx by auto
        then show ?thesis using False event_getitem_binds [OF 3] by simp
      qed
      then obtain t where t: "map_of ?e4 ''text'' = Some (JStr t)" by blast
      have "should_respond_to_event self bt event =
              (Inr (\<exists>q\<in>set qs. sublist q (lower t)), ?e4)"
        using True bt b 1 2 3 assms(3) any_query_in_text_string [OF t, of qs]
        by (simp add: should_respond_to_event_def
              MessageContainsRule_should_respond_to_message_def)
      then show ?thesis using responds by (simp add: react_def split: bool.splits)
    qed
  qed
qed

text \<open>
  Claim C9, as the code has it. Looking a key up in the event itself is total: a key
  that the decoded frame holds yields its value, any other key yields null (and is
  then bound to null), never a missing-key fault. So \<^verbatim>\<open>_process_event\<close> never raises
  KeyError, whatever the event and the rules are; the \<^verbatim>\<open>react\<close> of a rule raises it
  only if one of the rule's own methods does; and a MessageContainsRule with the default
  channel filter raises nothing at all on an event whose channel and text, where the
  frame holds them, are a string or null. The values inside the event are what the
  frame held: a rule that subscripts one of them, as SnippetOrMessageContainsRule does
  with \<^verbatim>\<open>message["file"]["mode"]\<close>, still fails on an incomplete event.
\<close>

theorem event_lookup_is_total:
  "event_getitem event k =
     (case map_of event k of None \<Rightarrow> (JNull, event @ [(k, JNull)]) | Some v \<Rightarrow> (v, event))
   \<and> fst (process_event srv bt rules event w) \<noteq> Inl KeyError
   \<and> (get_applicable_channels self \<noteq> Inl KeyError
        \<and> (\<forall>f b c. channel_override self = Some f \<longrightarrow> f b c \<noteq> Inl KeyError)
        \<and> (\<forall>ev. fst (should_respond_to_message self ev) \<noteq> Inl KeyError)
        \<and> (\<forall>ev. fst (get_response_text self ev) \<noteq> Inl KeyError)
      \<longrightarrow> fst (react self bt event) \<noteq> Inl KeyError)
   \<and> (channel_override self = None
        \<and> get_applicable_channels self = Inr names
        \<and> should_respond_to_message self = MessageContainsRule_should_respond_to_message (Inr qs)
        \<and> (\<forall>ev. get_response_text self ev = (Inr (JStr r), ev))
        \<and> hashable (dict_get event ''channel'' JNull)
        \<and> (dict_get event ''text'' JNull = JNull \<or> (\<exists>t. dict_get event ''text'' JNull = JStr t))
      \<longrightarrow> \<not> isl (fst (react self bt event)))"
proof -
  have a: "event_getitem event k =
     (case map_of event k of None \<Rightarrow> (JNull, event @ [(k, JNull)]) | Some v \<Rightarrow> (v, event))"
    by (simp add: event_getitem_absent event_getitem_bound split: option.splits)
  have b: "fst (process_event srv bt rules event w) \<noteq> Inl KeyError"
    using process_event_error [of srv bt rules event w KeyError] by blast
  show ?thesis
    using a b react_error [of self bt event] contains_rule_reacts [of self names qs r event bt]
    by blast
qed

theorem event_lookup_is_total_witness:
  "event_getitem [(''type'', JStr ''message'')] ''text''
     = (JNull, [(''type'', JStr ''message''), (''text'', JNull)])
   \<and> fst (process_event acknowledging example_bot [instance_of AreYouListening]
            [(''type'', JStr ''message'')] untouched) \<noteq> Inl KeyError
   \<and> fst (react AreYouListening example_bot [(''type'', JStr ''message'')]) \<noteq> Inl KeyError
   \<and> \<not> isl (fst (react AreYouListening example_bot
                   [(''type'', JStr ''message''), (''channel'', JStr ''C1'')]))"
proof -
  have h1: "get_applicable_channels AreYouListening \<noteq> Inl KeyError"
    by (simp add: AreYouListening_def)
  have h2: "\<forall>f b c. channel_override AreYouListening = Some f \<longrightarrow> f b c \<noteq> Inl KeyError"
    by (simp add: AreYouListening_def)
  have "fst (MessageContainsRule_should_respond_to_message (Inr qs) ev) \<noteq> Inl KeyError" for qs ev
    using any_query_in_text_error [of qs ev KeyError]
    by (auto simp: MessageContainsRule_should_respond_to_message_def)
  then have h3: "\<forall>ev. fst (should_respond_to_message AreYouListening ev) \<noteq> Inl KeyError"
    by (simp add: AreYouListening_def)
  have h4: "\<forall>ev. fst (get_response_text AreYouListening ev) \<noteq> Inl KeyError"
    by (simp add: AreYouListening_def)
  have m: "map_of [(''type'', JStr ''message'')] ''text'' = None" by simp
  have g1: "channel_override AreYouListening = None"
    and g2: "get_applicable_channels AreYouListening = Inr [''random'']"
    and g3: "should_respond_to_message AreYouListening =
               MessageContainsRule_should_respond_to_message
                 (Inr [''are you there'', ''are you listening''])"
    and g4: "\<forall>ev. get_response_text AreYouListening ev
               = (Inr (JStr ''Yes. You can't see me, but I'm right behind you.''), ev)"
    by (simp_all add: AreYouListening_def)
  have g5: "hashable (dict_get [(''type'', JStr ''message''), (''channel'', JStr ''C1'')]
                        ''channel'' JNull)"
    and g6: "dict_get [(''type'', JStr ''message''), (''channel'', JStr ''C1'')] ''text'' JNull
               = JNull"
    by (simp_all add: dict_get_def)
  note t1 = event_lookup_is_total [of "[(''type'', JStr ''message'')]" "''text''" acknowledging
        example_bot "[instance_of AreYouListening]" untouched AreYouListening]
  note t2 = event_lookup_is_total
      [of "[(''type'', JStr ''message''), (''channel'', JStr ''C1'')]" "''text''" acknowledging
        example_bot "[instance_of AreYouListening]" untouched AreYouListening
        "[''random'']" "[''are you there'', ''are you listening'']"
        "''Yes. You can't see me, but I'm right behind you.''"]
  have a: "event_getitem [(''type'', JStr ''message'')] ''text''
             = (JNull, [(''type'', JStr ''message''), (''text'', JNull)])"
    using t1 m by simp
  have b: "fst (process_event acknowledging example_bot [instance_of AreYouListening]
            [(''type'', JStr ''message'')] untouched) \<noteq> Inl KeyError"
    using t1 by blast
  have c: "fst (react AreYouListening example_bot [(''type'', JStr ''message'')]) \<noteq> Inl KeyError"
    using t1 h1 h2 h3 h4 by blast
  have d: "\<not> isl (fst (react AreYouListening example_bot
                   [(''type'', JStr ''message''), (''channel'', JStr ''C1'')]))"
    using t2 g1 g2 g3 g4 g5 g6 by blast
  from a b c d show ?thesis by blast
qed

text \<open>
  The claim as the specification words it fails for an incomplete event: a shared file
  announced without its \<^verbatim>\<open>file\<close> field makes the rule raise TypeError, one whose
  \<^verbatim>\<open>file\<close> lacks the \<^verbatim>\<open>mode\<close> makes it raise KeyError, both while the rule
  is evaluated in the batch.
\<close>

theorem nested_lookup_fails_counterexample:
  "map_of share_without_file ''file'' = None
   \<and> fst (react SnippetWatcher example_bot share_without_file) = Inl TypeError
   \<and> fst (react SnippetWatcher example_bot share_with_empty_file) = Inl KeyError
   \<and> fst (reactions example_bot [instance_of SnippetWatcher] share_without_file)
       = [Raised TypeError]
   \<and> fst (reactions example_bot [instance_of SnippetWatcher] share_with_empty_file)
       = [Raised KeyError]"
  by code_simp

section \<open>Paginated calls\<close>

lemma api_call_page:
  assumes "map_of data ''method'' = Some m"
  shows "api_call srv bt ((''cursor'', Json c) # data) w =
           (Inr (srv (page_request bt m data (Some c))),
            w\<lparr>posted := posted w @ [page_request bt m data (Some c)]\<rparr>)"
  using assms by (simp add: api_call_def page_request_def Let_def)

lemma api_call_first_page:
  assumes "map_of data ''method'' = Some m"
  shows "api_call srv bt data w =
           (Inr (srv (page_request bt m data None)),
            w\<lparr>posted := posted w @ [page_request bt m data None]\<rparr>)"
  using assms by (simp add: api_call_def page_request_def Let_def)

lemma paginate_from_pages:
  assumes "map_of data ''method'' = Some m" and "map_of data ''cursor'' = None"
  shows "pages_served srv bt key m data (Some c) pages \<Longrightarrow>
         paginate_from srv bt key data (JList ret) c w =
           Some (Inr (JList (ret @ concat (map fst pages))),
                 w\<lparr>posted := posted w @ page_requests bt m data (Some c) pages\<rparr>)"
proof (induction pages arbitrary: c ret w)
  case Nil
  then show ?case by (simp add: paginate_from.simps)
next
  case (Cons page pages)
  obtain items c' where page: "page = (items, c')" by (cases page)
  let ?w1 = "w\<lparr>posted := posted w @ [page_request bt m data (Some c)]\<rparr>"
  from Cons.prems page have t: "truthy c"
    and s: "subscript (srv (page_request bt m data (Some c))) key = Inr (JList items)"
    and n: "next_cursor_of (srv (page_request bt m data (Some c))) = Inr c'"
    and r: "pages_served srv bt key m data (Some c') pages"
    by simp_all
  have np: "next_page srv bt key data (JList ret) c w = (Inr (JList (ret @ items), c'), ?w1)"
    using assms s n by (simp add: next_page_def api_call_page py_iter_def)
  have "paginate_from srv bt key data (JList ret) c w =
          paginate_from srv bt key data (JList (ret @ items)) c' ?w1"
    using t np by (subst paginate_from.simps) simp
  also have "\<dots> = Some (Inr (JList ((ret @ items) @ concat (map fst pages))),
                 ?w1\<lparr>posted := posted ?w1 @ page_requests bt m data (Some c') pages\<rparr>)"
    using Cons.IH [OF r] .
  finally show ?case using page by simp
qed

lemma page_request_limit:
  "map_of (snd (page_request bt m (AList.update ''limit'' (Json (JNum 300)) data0) cursor)) ''limit''
     = Some (Json (JNum 300))"
  by (cases cursor) (simp_all add: page_request_def update_conv' delete_conv')

lemma page_requests_limit:
  "r \<in> set (page_requests bt m (AList.update ''limit'' (Json (JNum 300)) data0) cursor pages) \<Longrightarrow>
      map_of (snd r) ''limit'' = Some (Json (JNum 300))"
proof (induction pages arbitrary: cursor)
  case Nil
  then show ?case by simp
next
  case (Cons page pages)
  obtain items c where page: "page = (items, c)" by (cases page)
  show ?case using Cons page page_request_limit [of bt m data0 cursor] by auto
qed

lemma page_requests_length: "length (page_requests bt m data cursor pages) = length pages"
  by (induction pages arbitrary: cursor) auto

text \<open>
  Claim C6, as the code has it. A paginated call asks for every page with the fixed
  page size 300, and goes on for as long as the cursor in the metadata of the response
  counts as true (it is present, not null and not empty). When the service delivers a
  sequence of pages in this way, the call returns their items concatenated in the order
  of the pages, nothing reordered or removed, after exactly one request for each page;
  so pages of 100, 100 and 50 items give one list of 250. It stops exactly when the
  cursor is absent, null or empty.
\<close>

theorem pagination_concatenates_pages:
  assumes "map_of data0 ''method'' = Some m" and "map_of data0 ''cursor'' = None"
    and "data = AList.update ''limit'' (Json (JNum 300)) data0"
    and "pages_served srv bt collect_key m data None pages"
  shows "paginated_api_call srv bt collect_key data0 w =
           Some (Inr (JList (concat (map fst pages))),
                 w\<lparr>posted := posted w @ page_requests bt m data None pages\<rparr>)
       \<and> length (page_requests bt m data None pages) = length pages
       \<and> (\<forall>r\<in>set (page_requests bt m data None pages).
             map_of (snd r) ''limit'' = Some (Json (JNum 300)))"
proof -
  have dm: "map_of data ''method'' = Some m" and dc: "map_of data ''cursor'' = None"
    using assms(1,2,3) by (simp_all add: update_conv')
  obtain items c pages' where pages: "pages = (items, c) # pages'"
    using assms(4) by (cases pages) auto
  from assms(4) pages
  have s: "subscript (srv (page_request bt m data None)) collect_key = Inr (JList items)"
    and n: "next_cursor_of (srv (page_request bt m data None)) = Inr c"
    and r: "pages_served srv bt collect_key m data (Some c) pages'"
    by simp_all
  let ?w1 = "w\<lparr>posted := posted w @ [page_request bt m data None]\<rparr>"
  have "paginated_api_call srv bt collect_key data0 w =
          paginate_from srv bt collect_key data (JList items) c ?w1"
    using s n assms(3) api_call_first_page [OF dm, of srv bt w]
    by (simp add: paginated_api_call_def Let_def)
  also have "\<dots> = Some (Inr (JList (items @ concat (map fst pages'))),
                 ?w1\<lparr>posted := posted ?w1 @ page_requests bt m data (Some c) pages'\<rparr>)"
    using paginate_from_pages [OF dm dc r] .
  finally have a: "paginated_api_call srv bt collect_key data0 w =
           Some (Inr (JList (concat (map fst pages))),
                 w\<lparr>posted := posted w @ page_requests bt m data None pages\<rparr>)"
    using pages by simp
  show ?thesis
    using a page_requests_length [of bt m data None pages]
      page_requests_limit [of _ bt m data0 None pages] assms(3)
    by simp
qed

theorem pagination_concatenates_pages_witness:
  "map_option fst (paginated_api_call three_pages example_bot ''members''
       [(''method'', Json (JStr ''users.list''))] untouched)
     = Some (Inr (JList (map JNum [0..249])))
   \<and> length (page_requests example_bot (Json (JStr ''users.list''))
        [(''method'', Json (JStr ''users.list'')), (''limit'', Json (JNum 300))] None
        [(map JNum [0..99], JStr ''page2''), (map JNum [100..199], JStr ''page3''),
         (map JNum [200..249], JNull)]) = 3"
proof -
  let ?args = "[(''method'', Json (JStr ''users.list''))]"
  let ?sent = "[(''method'', Json (JStr ''users.list'')), (''limit'', Json (JNum 300))]"
  let ?pages = "[(map JNum [0..99], JStr ''page2''), (map JNum [100..199], JStr ''page3''),
                 (map JNum [200..249], JNull)]"
  have m: "map_of ?args ''method'' = Some (Json (JStr ''users.list''))" by simp
  have c: "map_of ?args ''cursor'' = None" by simp
  have d: "?sent = AList.update ''limit'' (Json (JNum 300)) ?args" by simp
  have p: "pages_served three_pages example_bot ''members'' (Json (JStr ''users.list'')) ?sent None ?pages"
    by code_simp
  have k: "concat (map fst ?pages) = map JNum [0..249]" by code_simp
  have l: "length ?pages = 3" by (simp only: list.size)
  note t = pagination_concatenates_pages [OF m c d p, of untouched]
  from t have "map_option fst (paginated_api_call three_pages example_bot ''members'' ?args untouched)
                 = Some (Inr (JList (concat (map fst ?pages))))"
    by (simp only: option.map fst_conv)
  then have a: "map_option fst (paginated_api_call three_pages example_bot ''members'' ?args untouched)
                 = Some (Inr (JList (map JNum [0..249])))"
    by (simp only: k)
  from t have b: "length (page_requests example_bot (Json (JStr ''users.list'')) ?sent None ?pages) = 3"
    by (simp only: l)
  from a b show ?thesis by (rule conjI)
qed

text \<open>
  The claim as the specification words it fails: a response whose metadata holds a
  cursor, the empty string, ends the pagination.
\<close>

theorem pagination_stops_at_empty_cursor_counterexample:
  "next_cursor_of (ending_with_empty_cursor
       (Json (JStr ''users.list''),
        [(''limit'', Json (JNum 300)), (''token'', Json (JStr ''xoxb''))])) = Inr (JStr '''')
   \<and> paginated_api_call ending_with_empty_cursor example_bot ''members''
       [(''method'', Json (JStr ''users.list''))] untouched
     = Some (Inr (JList [JNum 1, JNum 2]),
             untouched\<lparr>posted := [(Json (JStr ''users.list''),
                [(''limit'', Json (JNum 300)), (''token'', Json (JStr ''xoxb''))])]\<rparr>)"
  by (simp add: paginated_api_call_def api_call_def next_cursor_of_def get_method_def dict_get_def
        subscript_def dict_getitem_def ending_with_empty_cursor_def example_bot_def untouched_def
        paginate_from.simps Let_def)

section \<open>The heartbeat\<close>

text \<open>
  Claim C5 says that a heartbeat probe that times out after an idle timeout is a
  connection loss from which the run recovers by a new handshake. In the code the
  \<^verbatim>\<open>asyncio.TimeoutError\<close> of the probe is raised inside the handler of the first
  timeout and is not a \<^verbatim>\<open>websockets.ConnectionClosed\<close>: it leaves \<^verbatim>\<open>run\<close>. With
  a second connection cycle at hand, the run ends after one handshake, raising
  TimeoutError; had the probe raised ConnectionClosed instead, the run would have gone
  through the second handshake and would still be running.
\<close>

theorem heartbeat_timeout_ends_run:
  "receive_loop srv bt rules (Idle Ping_timeout # rest) w = (Some TimeoutError, w)
   \<and> map_option (\<lambda>r. (fst r, handshakes (snd (snd r))))
     (run [\<lparr>gateway = small_team, socket = [Idle Ping_timeout]\<rparr>,
           \<lparr>gateway = small_team, socket = []\<rparr>]
        (SlackBot ''xoxb'' None) [instance_of AreYouListening] untouched)
     = Some (Raises TimeoutError, 1)
   \<and> map_option (\<lambda>r. (fst r, handshakes (snd (snd r))))
     (run [\<lparr>gateway = small_team, socket = [Idle Ping_closed]\<rparr>,
           \<lparr>gateway = small_team, socket = []\<rparr>]
        (SlackBot ''xoxb'' None) [instance_of AreYouListening] untouched)
     = Some (Running, 2)"
proof -
  have loop: "receive_loop srv bt rules (Idle Ping_timeout # rest) w = (Some TimeoutError, w)"
    by simp
  have timed_out: "map_option (\<lambda>r. (fst r, handshakes (snd (snd r))))
     (run [\<lparr>gateway = small_team, socket = [Idle Ping_timeout]\<rparr>,
           \<lparr>gateway = small_team, socket = []\<rparr>]
        (SlackBot ''xoxb'' None) [instance_of AreYouListening] untouched)
     = Some (Raises TimeoutError, 1)"
    by code_simp
  have closed: "map_option (\<lambda>r. (fst r, handshakes (snd (snd r))))
     (run [\<lparr>gateway = small_team, socket = [Idle Ping_closed]\<rparr>,
           \<lparr>gateway = small_team, socket = []\<rparr>]
        (SlackBot ''xoxb'' None) [instance_of AreYouListening] untouched)
     = Some (Running, 2)"
    by code_simp
  from loop timed_out closed show ?thesis by blast
qed

end
